theory Spec2Isabelle
  imports Complex_Main "HOL-Library.Monad_Syntax"
begin

section \<open>JavaScript numbers\<close>

text \<open>
  A JavaScript \<^verbatim>\<open>number\<close> is an IEEE 754 binary64 value: a finite value, one of the
  two infinities, or NaN. A finite double is \<open>m * 2 ^ j\<close> with \<open>|m| < 2 ^ 53\<close>,
  \<open>-1074 \<le> j\<close> and magnitude below \<open>2 ^ 1024\<close>. The sign of zero is not modelled: the
  only quotients the turtle computes are passed to \<^verbatim>\<open>Math.abs\<close> at once, so the sign of
  an infinite quotient is never observed.
\<close>

datatype number = Fin real | PInf | NInf | NaN

text \<open>
  Rounding to the nearest integer, ties to the even one, and rounding of a real to the
  nearest double: for \<open>2 ^ e \<le> |x| < 2 ^ (e + 1)\<close> the doubles are \<open>2 ^ (e - 52)\<close> apart,
  below \<open>2 ^ -1022\<close> they are \<open>2 ^ -1074\<close> apart, and a result that rounds to \<open>2 ^ 1024\<close>
  or beyond overflows to an infinity.
\<close>

definition roundEven :: "real \<Rightarrow> int" where
  "roundEven q =
     (let f = \<lfloor>q\<rfloor>; r = q - of_int f
      in if r < 1 / 2 then f else if 1 / 2 < r then f + 1 else if even f then f else f + 1)"

definition round64 :: "real \<Rightarrow> number" where
  "round64 x =
     (if x = 0 then Fin 0
      else
        let e = max \<lfloor>log 2 \<bar>x\<bar>\<rfloor> (- 1022);
            ulp = 2 powi (e - 52);
            r = of_int (roundEven (x / ulp)) * ulp
        in if 2 ^ 1024 \<le> \<bar>r\<bar> then (if 0 < x then PInf else NInf) else Fin r)"

text \<open>
  The operators \<^verbatim>\<open>+\<close>, \<^verbatim>\<open>-\<close>, \<^verbatim>\<open>*\<close> and \<^verbatim>\<open>/\<close> round the exact result of two finite
  operands; negation, \<^verbatim>\<open>Math.abs\<close> and the comparisons are exact. A non-zero value
  divided by zero is infinite, zero divided by zero is NaN, zero times infinity is NaN,
  and every comparison with NaN is false.
\<close>

instantiation number :: "{plus, minus, times, inverse, uminus, abs, ord}"
begin

fun uminus_number :: "number \<Rightarrow> number" where
  "- Fin a = Fin (- a)"
| "- PInf = NInf"
| "- NInf = PInf"
| "- NaN = NaN"

fun plus_number :: "number \<Rightarrow> number \<Rightarrow> number" where
  "Fin a + Fin b = round64 (a + b)"
| "NaN + _ = NaN"
| "_ + NaN = NaN"
| "PInf + NInf = NaN"
| "NInf + PInf = NaN"
| "PInf + _ = PInf"
| "_ + PInf = PInf"
| "NInf + _ = NInf"
| "_ + NInf = NInf"

fun minus_number :: "number \<Rightarrow> number \<Rightarrow> number" where
  "Fin a - Fin b = round64 (a - b)"
| "NaN - _ = NaN"
| "_ - NaN = NaN"
| "PInf - PInf = NaN"
| "NInf - NInf = NaN"
| "PInf - _ = PInf"
| "_ - NInf = PInf"
| "NInf - _ = NInf"
| "_ - PInf = NInf"

fun times_number :: "number \<Rightarrow> number \<Rightarrow> number" where
  "Fin a * Fin b = round64 (a * b)"
| "NaN * _ = NaN"
| "_ * NaN = NaN"
| "Fin a * PInf = (if a = 0 then NaN else if 0 < a then PInf else NInf)"
| "Fin a * NInf = (if a = 0 then NaN else if 0 < a then NInf else PInf)"
| "PInf * Fin b = (if b = 0 then NaN else if 0 < b then PInf else NInf)"
| "NInf * Fin b = (if b = 0 then NaN else if 0 < b then NInf else PInf)"
| "PInf * PInf = PInf"
| "PInf * NInf = NInf"
| "NInf * PInf = NInf"
| "NInf * NInf = PInf"

fun divide_number :: "number \<Rightarrow> number \<Rightarrow> number" where
  "divide_number (Fin a) (Fin b) =
     (if b = 0 then (if a = 0 then NaN else if 0 < a then PInf else NInf)
      else round64 (a / b))"
| "divide_number NaN _ = NaN"
| "divide_number _ NaN = NaN"
| "divide_number (Fin a) PInf = Fin 0"
| "divide_number (Fin a) NInf = Fin 0"
| "divide_number PInf (Fin b) = (if b < 0 then NInf else PInf)"
| "divide_number NInf (Fin b) = (if b < 0 then PInf else NInf)"
| "divide_number PInf PInf = NaN"
| "divide_number PInf NInf = NaN"
| "divide_number NInf PInf = NaN"
| "divide_number NInf NInf = NaN"

fun inverse_number :: "number \<Rightarrow> number" where
  "inverse_number (Fin a) = (if a = 0 then PInf else round64 (1 / a))"
| "inverse_number PInf = Fin 0"
| "inverse_number NInf = Fin 0"
| "inverse_number NaN = NaN"

fun abs_number :: "number \<Rightarrow> number" where
  "\<bar>Fin a\<bar> = Fin \<bar>a\<bar>"
| "\<bar>PInf\<bar> = PInf"
| "\<bar>NInf\<bar> = PInf"
| "\<bar>NaN\<bar> = NaN"

fun less_number :: "number \<Rightarrow> number \<Rightarrow> bool" where
  "Fin a < Fin b \<longleftrightarrow> a < b"
| "NaN < _ \<longleftrightarrow> False"
| "_ < NaN \<longleftrightarrow> False"
| "NInf < Fin _ \<longleftrightarrow> True"
| "NInf < PInf \<longleftrightarrow> True"
| "Fin _ < PInf \<longleftrightarrow> True"
| "PInf < _ \<longleftrightarrow> False"
| "_ < NInf \<longleftrightarrow> False"

fun less_eq_number :: "number \<Rightarrow> number \<Rightarrow> bool" where
  "Fin a \<le> Fin b \<longleftrightarrow> a \<le> b"
| "NaN \<le> _ \<longleftrightarrow> False"
| "_ \<le> NaN \<longleftrightarrow> False"
| "NInf \<le> _ \<longleftrightarrow> True"
| "_ \<le> PInf \<longleftrightarrow> True"
| "PInf \<le> _ \<longleftrightarrow> False"
| "_ \<le> NInf \<longleftrightarrow> False"

instance ..

end

text \<open>Truthiness of a number, as tested by \<^verbatim>\<open>if (options?.width)\<close>.\<close>

fun truthy :: "number \<Rightarrow> bool" where
  "truthy (Fin a) = (a \<noteq> 0)"
| "truthy NaN = False"
| "truthy _ = True"

text \<open>\<^verbatim>\<open>Math.PI\<close> is the double nearest to \<open>\<pi>\<close>, which is \<open>884279719003555 / 2 ^ 48\<close>.\<close>

definition Math_PI :: number where
  "Math_PI = Fin (884279719003555 / 281474976710656)"

text \<open>
  Modelled from the spec: \<^verbatim>\<open>degToRad\<close> is imported from \<^verbatim>\<open>shapes.ts\<close>, which is
  not among the sources; the heading is in degrees and is converted to the direction
  vector \<open>(sin \<theta>, cos \<theta>)\<close>, so the conversion is the usual one, computed in doubles as
  \<^verbatim>\<open>degrees * Math.PI / 180\<close>.
\<close>

definition degToRad :: "number \<Rightarrow> number" where
  "degToRad degrees = degrees * Math_PI / Fin 180"

text \<open>
  \<^verbatim>\<open>Math.sin\<close> and \<^verbatim>\<open>Math.cos\<close>: NaN on the infinities and on NaN. On a finite argument
  the language leaves the value to the implementation, as an approximation of the exact
  sine and cosine; the model takes the double nearest to the exact value. At 0 this
  is exactly 0 and 1, as in every implementation.
\<close>

fun Math_sin :: "number \<Rightarrow> number" where
  "Math_sin (Fin a) = round64 (sin a)"
| "Math_sin _ = NaN"

fun Math_cos :: "number \<Rightarrow> number" where
  "Math_cos (Fin a) = round64 (cos a)"
| "Math_cos _ = NaN"

section \<open>The loop of \<^verbatim>\<open>_doStraightLine\<close>\<close>

type_synonym Vertex2D = "number \<times> number"

type_synonym Segment = "Vertex2D \<times> Vertex2D"

text \<open>
  The \<^verbatim>\<open>while (distance > 0)\<close> loop of \<^verbatim>\<open>Turtle._doStraightLine\<close>, with the local
  variables as arguments. Each iteration calls \<^verbatim>\<open>ctx.moveTo(x, y)\<close> before the branch and
  \<^verbatim>\<open>ctx.lineTo(newX, newY)\<close> inside it, before \<^verbatim>\<open>newX\<close> or \<^verbatim>\<open>newY\<close> is changed: the
  segment added to the path runs from the \<open>(x, y)\<close> of the start of the iteration to the
  \<open>(newX, newY)\<close> of the start of the iteration. The argument \<open>path\<close> collects these
  segments in order. The loop returns the final \<open>(newX, newY)\<close> and the path; the
  result is \<open>None\<close> when the loop does not end.
\<close>

partial_function (option) straightLineLoop ::
  "bool \<Rightarrow> number \<Rightarrow> number \<Rightarrow> number \<Rightarrow> number \<Rightarrow>
   number \<Rightarrow> number \<Rightarrow> number \<Rightarrow> number \<Rightarrow> number \<Rightarrow> Segment list \<Rightarrow>
   (number \<times> number \<times> Segment list) option"
where
  "straightLineLoop wrap w h sinAngle cosAngle x y newX newY distance path =
     (if distance > Fin 0 then
        (let distanceToEdgeX = \<bar>(if newX > x then w - x else w + x) / sinAngle\<bar>;
             distanceToEdgeY = \<bar>(if newY > y then h - y else h + y) / cosAngle\<bar>
         in
           if wrap \<and> \<bar>newX\<bar> > w \<and> distanceToEdgeX \<le> distanceToEdgeY then
             straightLineLoop wrap w h sinAngle cosAngle
               (if newX > Fin 0 then - w else w)
               (y + cosAngle * distanceToEdgeX)
               (newX - (if newX > Fin 0 then w * Fin 2 else - (w * Fin 2)))
               newY
               (distance - distanceToEdgeX)
               (path @ [((x, y), (newX, newY))])
           else if wrap \<and> \<bar>newY\<bar> > h \<and> distanceToEdgeX \<ge> distanceToEdgeY then
             straightLineLoop wrap w h sinAngle cosAngle
               (x + sinAngle * distanceToEdgeY)
               (if newY > Fin 0 then - h else h)
               newX
               (newY - (if newY > Fin 0 then h * Fin 2 else - (h * Fin 2)))
               (distance - distanceToEdgeY)
               (path @ [((x, y), (newX, newY))])
           else
             straightLineLoop wrap w h sinAngle cosAngle
               x y newX newY (Fin 0) (path @ [((x, y), (newX, newY))]))
      else Some (newX, newY, path))"

declare straightLineLoop.simps [code]

section \<open>Colours\<close>

text \<open>
  A \<^verbatim>\<open>Color\<close> holds the components \<^verbatim>\<open>r\<close>, \<^verbatim>\<open>g\<close>, \<^verbatim>\<open>b\<close> and \<^verbatim>\<open>a\<close>. Its constructor
  takes the three colour components and leaves \<^verbatim>\<open>a\<close> at its initial value 1.
\<close>

datatype Color = RGBA number number number number

definition newColor :: "number \<Rightarrow> number \<Rightarrow> number \<Rightarrow> Color" where
  "newColor r g b = RGBA r g b (Fin 1)"

text \<open>
  A \<^verbatim>\<open>ColorResolvable\<close> is a \<^verbatim>\<open>Color\<close>, an array of three numbers or a string. Strings
  are resolved through the table of \<^verbatim>\<open>html-colors.ts\<close>, which is not among the sources:
  they are left out of the model.
\<close>

datatype ColorResolvable = OfColor Color | OfArray number number number

definition clampChannel :: "number \<Rightarrow> number" where
  "clampChannel c = (if c < Fin 0 then Fin 0 else if c > Fin 255 then Fin 255 else c)"

text \<open>
  \<^verbatim>\<open>convertToColor\<close> of \<^verbatim>\<open>colors.ts\<close>. For an array, \<^verbatim>\<open>rgb\<close> starts as \<^verbatim>\<open>[0, 0, 0]\<close>
  and each \<^verbatim>\<open>rgb[i] ??= col[i]\<close> assigns only where \<^verbatim>\<open>rgb[i]\<close> is null or undefined,
  which it never is. The last clamping line repeats index 1.
\<close>

fun convertToColor :: "ColorResolvable \<Rightarrow> Color" where
  "convertToColor (OfColor col) = col"
| "convertToColor (OfArray c0 c1 c2) =
     (let rgb0 = Fin 0; rgb1 = Fin 0; rgb2 = Fin 0;
          rgb0 = clampChannel rgb0;
          rgb1 = clampChannel rgb1;
          rgb1 = clampChannel rgb1
      in newColor rgb0 rgb1 rgb2)"

section \<open>Steps and the turtle\<close>

datatype CanvasLineCap = CapButt | CapRound | CapSquare

text \<open>The tagged union \<^verbatim>\<open>TurtleStep\<close> of \<^verbatim>\<open>steps.ts\<close>, one constructor per tag.\<close>

datatype TurtleStep =
    Forward number
  | Backward number
  | Left number
  | Right number
  | SetAngle number
  | Hide
  | Show
  | PenUp
  | PenDown
  | PenToggle
  | Reset
  | Clear
  | Goto number number
  | SetColor ColorResolvable
  | SetWidth number
  | SetShape "Vertex2D list"
  | SetSpeed number
  | SetLineCap CanvasLineCap

text \<open>
  Of the canvas context the model keeps the size of the canvas, the line cap and the
  segments stroked by \<^verbatim>\<open>_doStraightLine\<close>, in the order of drawing. The cursor glyph
  (\<^verbatim>\<open>drawTurtle\<close>) and the pixel snapshot behind it (\<^verbatim>\<open>saveImageData\<close>,
  \<^verbatim>\<open>restoreImageData\<close>, \<^verbatim>\<open>_preDrawData\<close>) are an overlay that no field of the turtle
  depends on; they are not modelled.
\<close>

record CanvasRenderingContext2D =
  canvas_width :: number
  canvas_height :: number
  lineCap :: CanvasLineCap
  strokes :: "Segment list"

text \<open>
  The fields of class \<^verbatim>\<open>Turtle\<close>, without their leading underscore. The last two
  fields are the timer table of the host: the identifiers of the intervals that are
  armed, and the number of intervals created so far.
\<close>

record Turtle =
  ctx :: CanvasRenderingContext2D
  hidden :: bool
  wrap :: bool
  isPenDown :: bool
  stepByStep :: bool
  step :: bool
  steps :: "TurtleStep list"
  speed :: "number option"
  interval :: "nat option"
  color :: Color
  defaultColor :: Color
  width :: number
  turtleSizeModifier :: number
  position :: Vertex2D
  angle :: number
  shape :: "Vertex2D list"
  timers :: "nat list"
  timerCount :: nat

text \<open>\<^verbatim>\<open>setInterval\<close> arms a new interval and returns its identifier, which is never 0.\<close>

definition setInterval :: "Turtle \<Rightarrow> nat \<times> Turtle" where
  "setInterval t =
     (let i = Suc (timerCount t)
      in (i, t\<lparr>timers := timers t @ [i], timerCount := i\<rparr>))"

definition clearInterval :: "nat \<Rightarrow> Turtle \<Rightarrow> Turtle" where
  "clearInterval i t = t\<lparr>timers := removeAll i (timers t)\<rparr>"

definition clearContext :: "Turtle \<Rightarrow> Turtle" where
  "clearContext t = t\<lparr>ctx := (ctx t)\<lparr>strokes := []\<rparr>\<rparr>"

text \<open>\<^verbatim>\<open>ctx.stroke()\<close> on a path begun by \<^verbatim>\<open>ctx.beginPath()\<close> and holding \<open>path\<close>.\<close>

definition stroke :: "Segment list \<Rightarrow> Turtle \<Rightarrow> Turtle" where
  "stroke path t = t\<lparr>ctx := (ctx t)\<lparr>strokes := strokes (ctx t) @ path\<rparr>\<rparr>"

definition isInStep :: "Turtle \<Rightarrow> bool" where
  "isInStep t = (\<not> stepByStep t \<or> step t)"

text \<open>
  Each public method \<^verbatim>\<open>m\<close> tests \<^verbatim>\<open>isInStep\<close> and either runs the private \<^verbatim>\<open>_m\<close>, here
  \<open>m'\<close>, or pushes a step. No listener is registered on the emitter, so \<^verbatim>\<open>emit\<close> has
  no effect.
\<close>

definition clear' :: "Turtle \<Rightarrow> Turtle" where
  "clear' t = clearContext t"

definition clear :: "Turtle \<Rightarrow> Turtle" where
  "clear t = (if isInStep t then clear' t else t\<lparr>steps := steps t @ [Clear]\<rparr>)"

definition hide' :: "Turtle \<Rightarrow> Turtle" where
  "hide' t = t\<lparr>hidden := True\<rparr>"

definition hide :: "Turtle \<Rightarrow> Turtle" where
  "hide t = (if isInStep t then hide' t else t\<lparr>steps := steps t @ [Hide]\<rparr>)"

definition show' :: "Turtle \<Rightarrow> Turtle" where
  "show' t = t\<lparr>hidden := False\<rparr>"

definition showTurtle :: "Turtle \<Rightarrow> Turtle" where
  "showTurtle t = (if isInStep t then show' t else t\<lparr>steps := steps t @ [Show]\<rparr>)"

definition setShape' :: "Vertex2D list \<Rightarrow> Turtle \<Rightarrow> Turtle" where
  "setShape' shp t = t\<lparr>shape := shp\<rparr>"

definition setShape :: "Vertex2D list \<Rightarrow> Turtle \<Rightarrow> Turtle" where
  "setShape shp t =
     (if isInStep t then setShape' shp t else t\<lparr>steps := steps t @ [SetShape shp]\<rparr>)"

definition setSpeed' :: "number \<Rightarrow> Turtle \<Rightarrow> Turtle" where
  "setSpeed' ms t =
     (let t = t\<lparr>stepByStep := ms > Fin 0\<rparr>;
          t = t\<lparr>speed := Some ms\<rparr>;
          t = (case interval t of Some i \<Rightarrow> clearInterval i t | None \<Rightarrow> t);
          (i, t) = setInterval t
      in t\<lparr>interval := Some i\<rparr>)"

definition setSpeed :: "number \<Rightarrow> Turtle \<Rightarrow> Turtle" where
  "setSpeed ms t =
     (if isInStep t then setSpeed' ms t else t\<lparr>steps := steps t @ [SetSpeed ms]\<rparr>)"

definition penUp' :: "Turtle \<Rightarrow> Turtle" where
  "penUp' t = t\<lparr>isPenDown := False\<rparr>"

definition penUp :: "Turtle \<Rightarrow> Turtle" where
  "penUp t = (if isInStep t then penUp' t else t\<lparr>steps := steps t @ [PenUp]\<rparr>)"

definition penDown' :: "Turtle \<Rightarrow> Turtle" where
  "penDown' t = t\<lparr>isPenDown := True\<rparr>"

definition penDown :: "Turtle \<Rightarrow> Turtle" where
  "penDown t = (if isInStep t then penDown' t else t\<lparr>steps := steps t @ [PenDown]\<rparr>)"

definition penToggle' :: "Turtle \<Rightarrow> Turtle" where
  "penToggle' t = t\<lparr>isPenDown := \<not> isPenDown t\<rparr>"

text \<open>The step pushed by \<^verbatim>\<open>penToggle\<close> has the type \<^verbatim>\<open>TurtleStepType.PenDown\<close>.\<close>

definition penToggle :: "Turtle \<Rightarrow> Turtle" where
  "penToggle t = (if isInStep t then penToggle' t else t\<lparr>steps := steps t @ [PenDown]\<rparr>)"

definition setColor' :: "ColorResolvable \<Rightarrow> Turtle \<Rightarrow> Turtle" where
  "setColor' col t = t\<lparr>color := convertToColor col\<rparr>"

definition setColor :: "ColorResolvable \<Rightarrow> Turtle \<Rightarrow> Turtle" where
  "setColor col t =
     (if isInStep t then setColor' col t else t\<lparr>steps := steps t @ [SetColor col]\<rparr>)"

definition setWidth' :: "number \<Rightarrow> Turtle \<Rightarrow> Turtle" where
  "setWidth' size' t = t\<lparr>width := size'\<rparr>"

definition setWidth :: "number \<Rightarrow> Turtle \<Rightarrow> Turtle" where
  "setWidth size' t =
     (if isInStep t then setWidth' size' t else t\<lparr>steps := steps t @ [SetWidth size']\<rparr>)"

definition setLineCap' :: "CanvasLineCap \<Rightarrow> Turtle \<Rightarrow> Turtle" where
  "setLineCap' cap t = t\<lparr>ctx := (ctx t)\<lparr>lineCap := cap\<rparr>\<rparr>"

definition setLineCap :: "CanvasLineCap \<Rightarrow> Turtle \<Rightarrow> Turtle" where
  "setLineCap cap t =
     (if isInStep t then setLineCap' cap t else t\<lparr>steps := steps t @ [SetLineCap cap]\<rparr>)"

definition setAngle' :: "number \<Rightarrow> Turtle \<Rightarrow> Turtle" where
  "setAngle' degrees t = t\<lparr>angle := degrees\<rparr>"

definition setAngle :: "number \<Rightarrow> Turtle \<Rightarrow> Turtle" where
  "setAngle degrees t =
     (if isInStep t then setAngle' degrees t else t\<lparr>steps := steps t @ [SetAngle degrees]\<rparr>)"

definition left' :: "number \<Rightarrow> Turtle \<Rightarrow> Turtle" where
  "left' degrees t = t\<lparr>angle := angle t - degrees\<rparr>"

definition left :: "number \<Rightarrow> Turtle \<Rightarrow> Turtle" where
  "left degrees t =
     (if isInStep t then left' degrees t else t\<lparr>steps := steps t @ [Left degrees]\<rparr>)"

text \<open>The body of \<^verbatim>\<open>_right\<close> is \<^verbatim>\<open>this._angle -= degrees\<close>, as that of \<^verbatim>\<open>_left\<close>.\<close>

definition right' :: "number \<Rightarrow> Turtle \<Rightarrow> Turtle" where
  "right' degrees t = t\<lparr>angle := angle t - degrees\<rparr>"

definition right :: "number \<Rightarrow> Turtle \<Rightarrow> Turtle" where
  "right degrees t =
     (if isInStep t then right' degrees t else t\<lparr>steps := steps t @ [Right degrees]\<rparr>)"

definition goto' :: "number \<Rightarrow> number \<Rightarrow> Turtle \<Rightarrow> Turtle" where
  "goto' x y t = t\<lparr>position := (x, y)\<rparr>"

definition goto :: "number \<Rightarrow> number \<Rightarrow> Turtle \<Rightarrow> Turtle" where
  "goto x y t = (if isInStep t then goto' x y t else t\<lparr>steps := steps t @ [Goto x y]\<rparr>)"

text \<open>
  \<^verbatim>\<open>_doStraightLine\<close>. With the pen down the path is begun afresh by \<^verbatim>\<open>beginPath\<close>
  before the loop and stroked after it; with the pen up \<^verbatim>\<open>stroke\<close> is not called. The
  position is then set through the public \<^verbatim>\<open>goto\<close>.
\<close>

definition doStraightLine :: "number \<Rightarrow> Turtle \<Rightarrow> Turtle option" where
  "doStraightLine distance t =
     (let cosAngle = Math_cos (degToRad (angle t));
          sinAngle = Math_sin (degToRad (angle t));
          w = canvas_width (ctx t) / Fin 2;
          h = canvas_height (ctx t) / Fin 2;
          x = fst (position t);
          y = snd (position t);
          newX = x + sinAngle * distance;
          newY = y + cosAngle * distance
      in case straightLineLoop (wrap t) w h sinAngle cosAngle x y newX newY distance [] of
           None \<Rightarrow> None
         | Some (newX, newY, path) \<Rightarrow>
             Some (goto newX newY (if isPenDown t then stroke path t else t)))"

definition forward' :: "number \<Rightarrow> Turtle \<Rightarrow> Turtle option" where
  "forward' distance t = doStraightLine distance t"

definition forward :: "number \<Rightarrow> Turtle \<Rightarrow> Turtle option" where
  "forward distance t =
     (if isInStep t then forward' distance t
      else Some (t\<lparr>steps := steps t @ [Forward distance]\<rparr>))"

definition backward' :: "number \<Rightarrow> Turtle \<Rightarrow> Turtle option" where
  "backward' distance t = doStraightLine (- distance) t"

definition backward :: "number \<Rightarrow> Turtle \<Rightarrow> Turtle option" where
  "backward distance t =
     (if isInStep t then backward' distance t
      else Some (t\<lparr>steps := steps t @ [Backward distance]\<rparr>))"

text \<open>\<^verbatim>\<open>_reset\<close> assigns three fields and then calls five public methods.\<close>

definition reset' :: "Turtle \<Rightarrow> Turtle" where
  "reset' t =
     (let t = t\<lparr>hidden := False\<rparr>;
          t = t\<lparr>isPenDown := True\<rparr>;
          t = t\<lparr>stepByStep := False\<rparr>;
          t = setWidth (Fin 1) t;
          t = setColor (OfColor (defaultColor t)) t;
          t = setAngle (Fin 0) t;
          t = goto (Fin 0) (Fin 0) t
      in clear t)"

definition reset :: "Turtle \<Rightarrow> Turtle" where
  "reset t = (if isInStep t then reset' t else t\<lparr>steps := steps t @ [Reset]\<rparr>)"

text \<open>
  \<^verbatim>\<open>doStep\<close> is a sequence of tests of \<^verbatim>\<open>step.type\<close>, of which at most one holds. There
  is no test for \<^verbatim>\<open>TurtleStepType.Backward\<close> and none for \<^verbatim>\<open>TurtleStepType.PenToggle\<close>.
\<close>

fun doStep :: "TurtleStep \<Rightarrow> Turtle \<Rightarrow> Turtle option" where
  "doStep (Goto x y) t = Some (goto x y t)"
| "doStep (SetAngle degrees) t = Some (setAngle degrees t)"
| "doStep (Forward distance) t = forward distance t"
| "doStep (Left degrees) t = Some (left degrees t)"
| "doStep (Right degrees) t = Some (right degrees t)"
| "doStep Hide t = Some (hide t)"
| "doStep Show t = Some (showTurtle t)"
| "doStep PenDown t = Some (penDown t)"
| "doStep PenUp t = Some (penUp t)"
| "doStep Reset t = Some (reset t)"
| "doStep Clear t = Some (clear t)"
| "doStep (SetColor col) t = Some (setColor col t)"
| "doStep (SetWidth size') t = Some (setWidth size' t)"
| "doStep (SetSpeed ms) t = Some (setSpeed ms t)"
| "doStep (SetShape shp) t = Some (setShape shp t)"
| "doStep (SetLineCap cap) t = Some (setLineCap cap t)"
| "doStep (Backward distance) t = Some t"
| "doStep PenToggle t = Some t"

definition nextStep :: "Turtle \<Rightarrow> Turtle option" where
  "nextStep t =
     (case steps t of
        s # rest \<Rightarrow>
          (let t = t\<lparr>steps := rest\<rparr>;
               t = t\<lparr>step := True\<rparr>
           in case doStep s t of
                None \<Rightarrow> None
              | Some t \<Rightarrow> Some (t\<lparr>step := False\<rparr>))
      | [] \<Rightarrow>
          (case interval t of
             Some i \<Rightarrow> Some ((clearInterval i t)\<lparr>interval := None\<rparr>)
           | None \<Rightarrow> Some t))"

text \<open>
  A tick of the interval \<open>i\<close>: the host calls the callback given to \<^verbatim>\<open>setInterval\<close>,
  which is \<^verbatim>\<open>nextStep\<close>, if the interval is armed.
\<close>

definition tick :: "nat \<Rightarrow> Turtle \<Rightarrow> Turtle option" where
  "tick i t = (if i \<in> set (timers t) then nextStep t else Some t)"

subsection \<open>The constructor\<close>

record TurtleOptions =
  opt_hidden :: "bool option"
  disableWrapping :: "bool option"
  opt_defaultColor :: "ColorResolvable option"
  opt_width :: "number option"
  startPostition :: "Vertex2D option"
  startAngle :: "number option"
  opt_shape :: "Vertex2D list option"
  opt_lineCap :: "CanvasLineCap option"
  opt_turtleSizeModifier :: "number option"
  autoDraw :: "bool option"

definition noOptions :: TurtleOptions where
  "noOptions = \<lparr>opt_hidden = None, disableWrapping = None, opt_defaultColor = None,
     opt_width = None, startPostition = None, startAngle = None, opt_shape = None,
     opt_lineCap = None, opt_turtleSizeModifier = None, autoDraw = None\<rparr>"

text \<open>
  The field initialisers of the class followed by the body of the constructor. An option
  is applied when it is present and truthy. \<^verbatim>\<open>BuiltInShapes.Default\<close> comes from
  \<^verbatim>\<open>shapes.ts\<close>, which is not among the sources: it is the parameter \<open>defaultShape\<close>.
\<close>

definition newTurtle ::
  "Vertex2D list \<Rightarrow> CanvasRenderingContext2D \<Rightarrow> TurtleOptions \<Rightarrow> Turtle" where
  "newTurtle defaultShape context options =
     (let t = \<lparr>ctx = context, hidden = False, wrap = True, isPenDown = True,
                stepByStep = False, step = False, steps = [], speed = None,
                interval = None,
                color = newColor (Fin 255) (Fin 0) (Fin 255),
                defaultColor = newColor (Fin 255) (Fin 0) (Fin 255),
                width = Fin 1, turtleSizeModifier = Fin 1,
                position = (Fin 0, Fin 0), angle = Fin 0, shape = defaultShape,
                timers = [], timerCount = 0\<rparr>;
          t = t\<lparr>ctx := (ctx t)\<lparr>lineCap := CapRound\<rparr>\<rparr>;
          t = (if opt_hidden options = Some True then t\<lparr>hidden := True\<rparr> else t);
          t = (if disableWrapping options = Some True then t\<lparr>wrap := False\<rparr> else t);
          t = (case opt_defaultColor options of
                 Some c \<Rightarrow> t\<lparr>defaultColor := convertToColor c, color := convertToColor c\<rparr>
               | None \<Rightarrow> t);
          t = (case opt_width options of
                 Some v \<Rightarrow> if truthy v then t\<lparr>width := v\<rparr> else t
               | None \<Rightarrow> t);
          t = (case startPostition options of
                 Some p \<Rightarrow> t\<lparr>position := p\<rparr>
               | None \<Rightarrow> t);
          t = (case startAngle options of
                 Some v \<Rightarrow> if truthy v then t\<lparr>angle := v\<rparr> else t
               | None \<Rightarrow> t);
          t = (case opt_shape options of
                 Some shp \<Rightarrow> t\<lparr>shape := shp\<rparr>
               | None \<Rightarrow> t);
          t = (case opt_lineCap options of
                 Some cap \<Rightarrow> t\<lparr>ctx := (ctx t)\<lparr>lineCap := cap\<rparr>\<rparr>
               | None \<Rightarrow> t);
          t = (case opt_turtleSizeModifier options of
                 Some v \<Rightarrow> if truthy v then t\<lparr>turtleSizeModifier := v\<rparr> else t
               | None \<Rightarrow> t)
      in t)"

subsection \<open>Sequences of calls\<close>

text \<open>A call of a public method, with its arguments.\<close>

datatype Call =
    CallForward number
  | CallBackward number
  | CallLeft number
  | CallRight number
  | CallSetAngle number
  | CallGoto number number
  | CallHide
  | CallShow
  | CallPenUp
  | CallPenDown
  | CallPenToggle
  | CallReset
  | CallClear
  | CallSetColor ColorResolvable
  | CallSetWidth number
  | CallSetShape "Vertex2D list"
  | CallSetSpeed number
  | CallSetLineCap CanvasLineCap

fun invoke :: "Call \<Rightarrow> Turtle \<Rightarrow> Turtle option" where
  "invoke (CallForward distance) t = forward distance t"
| "invoke (CallBackward distance) t = backward distance t"
| "invoke (CallLeft degrees) t = Some (left degrees t)"
| "invoke (CallRight degrees) t = Some (right degrees t)"
| "invoke (CallSetAngle degrees) t = Some (setAngle degrees t)"
| "invoke (CallGoto x y) t = Some (goto x y t)"
| "invoke CallHide t = Some (hide t)"
| "invoke CallShow t = Some (showTurtle t)"
| "invoke CallPenUp t = Some (penUp t)"
| "invoke CallPenDown t = Some (penDown t)"
| "invoke CallPenToggle t = Some (penToggle t)"
| "invoke CallReset t = Some (reset t)"
| "invoke CallClear t = Some (clear t)"
| "invoke (CallSetColor col) t = Some (setColor col t)"
| "invoke (CallSetWidth size') t = Some (setWidth size' t)"
| "invoke (CallSetShape shp) t = Some (setShape shp t)"
| "invoke (CallSetSpeed ms) t = Some (setSpeed ms t)"
| "invoke (CallSetLineCap cap) t = Some (setLineCap cap t)"

text \<open>The step that describes a call: the tag of the method with the arguments of the call.\<close>

fun stepOf :: "Call \<Rightarrow> TurtleStep" where
  "stepOf (CallForward distance) = Forward distance"
| "stepOf (CallBackward distance) = Backward distance"
| "stepOf (CallLeft degrees) = Left degrees"
| "stepOf (CallRight degrees) = Right degrees"
| "stepOf (CallSetAngle degrees) = SetAngle degrees"
| "stepOf (CallGoto x y) = Goto x y"
| "stepOf CallHide = Hide"
| "stepOf CallShow = Show"
| "stepOf CallPenUp = PenUp"
| "stepOf CallPenDown = PenDown"
| "stepOf CallPenToggle = PenToggle"
| "stepOf CallReset = Reset"
| "stepOf CallClear = Clear"
| "stepOf (CallSetColor col) = SetColor col"
| "stepOf (CallSetWidth size') = SetWidth size'"
| "stepOf (CallSetShape shp) = SetShape shp"
| "stepOf (CallSetSpeed ms) = SetSpeed ms"
| "stepOf (CallSetLineCap cap) = SetLineCap cap"

text \<open>A sequence of calls, one after the other.\<close>

fun invokeAll :: "Call list \<Rightarrow> Turtle \<Rightarrow> Turtle option" where
  "invokeAll [] t = Some t"
| "invokeAll (c # cs) t = (case invoke c t of None \<Rightarrow> None | Some t \<Rightarrow> invokeAll cs t)"

text \<open>
  Draining the queue: \<^verbatim>\<open>nextStep\<close> is called until the queue is empty. Each call removes
  one step and a replayed step pushes none, so \<open>n\<close> calls drain a queue of \<open>n\<close> steps;
  \<open>drain\<close> makes as many calls as there are steps queued.
\<close>

fun nextSteps :: "nat \<Rightarrow> Turtle \<Rightarrow> Turtle option" where
  "nextSteps 0 t = Some t"
| "nextSteps (Suc n) t = (case nextStep t of None \<Rightarrow> None | Some t \<Rightarrow> nextSteps n t)"

definition drain :: "Turtle \<Rightarrow> Turtle option" where
  "drain t = nextSteps (length (steps t)) t"

text \<open>The fields that the spec calls the state of the turtle.\<close>

definition turtleState ::
  "Turtle \<Rightarrow> Vertex2D \<times> number \<times> bool \<times> bool \<times> Color \<times> number \<times> Vertex2D list" where
  "turtleState t = (position t, angle t, isPenDown t, hidden t, color t, width t, shape t)"

subsection \<open>Reachable turtles, lengths and concrete turtles\<close>

text \<open>
  The turtles that a program can produce: a turtle is constructed, then the public methods
  that have a step are called on it and intervals tick, in any order.
\<close>

inductive reachable :: "Turtle \<Rightarrow> bool" where
  reachable_new: "reachable (newTurtle defaultShape context options)"
| reachable_invoke: "reachable t \<Longrightarrow> invoke c t = Some t' \<Longrightarrow> reachable t'"
| reachable_tick: "reachable t \<Longrightarrow> tick i t = Some t' \<Longrightarrow> reachable t'"

text \<open>What \<^verbatim>\<open>reset\<close> leaves behind, as a relation between the turtle before and after.\<close>

definition resetFields :: "Turtle \<Rightarrow> Turtle \<Rightarrow> bool" where
  "resetFields t t' =
     (hidden t' = False \<and> wrap t' = wrap t \<and> isPenDown t' = True \<and>
      stepByStep t' = False \<and> width t' = Fin 1 \<and> color t' = defaultColor t \<and>
      angle t' = Fin 0 \<and> position t' = (Fin 0, Fin 0) \<and> strokes (ctx t') = [])"


text \<open>
  A canvas of 200 by 200 pixels, so that \<open>w = h = 100\<close>, and the turtle constructed on
  it without options: at the origin, heading 0, pen down, wrapping, immediate mode.
\<close>

definition canvas200 :: CanvasRenderingContext2D where
  "canvas200 = \<lparr>canvas_width = Fin 200, canvas_height = Fin 200,
     lineCap = CapButt, strokes = []\<rparr>"

definition turtle0 :: Turtle where
  "turtle0 = newTurtle [] canvas200 noOptions"

text \<open>The same canvas with a turtle constructed with \<^verbatim>\<open>disableWrapping\<close>.\<close>

definition turtleNoWrap :: Turtle where
  "turtleNoWrap = newTurtle [] canvas200 (noOptions\<lparr>disableWrapping := Some True\<rparr>)"

text \<open>
  The timer invariant: the armed intervals are exactly the one recorded in the field
  \<open>interval\<close>, if any, and every armed interval has been created. Two turtles have the
  same timers when the three timer fields agree.
\<close>

definition oneTimer :: "Turtle \<Rightarrow> bool" where
  "oneTimer t =
     (timers t = (case interval t of None \<Rightarrow> [] | Some i \<Rightarrow> [i]) \<and>
      (\<forall>i \<in> set (timers t). i \<le> timerCount t))"

definition sameTimers :: "Turtle \<Rightarrow> Turtle \<Rightarrow> bool" where
  "sameTimers t t' =
     (timers t' = timers t \<and> interval t' = interval t \<and> timerCount t' = timerCount t)"

text \<open>
  Two turtles draw the same when they agree on the canvas and on every field but the
  queue, the flags of the scheduler and the timers. A call is replayable when
  \<^verbatim>\<open>doStep\<close> has a case for the step it pushes and it leaves the mode alone: every call
  but \<^verbatim>\<open>penToggle\<close>, for which no step of its own is pushed, \<^verbatim>\<open>backward\<close> and
  \<^verbatim>\<open>setSpeed\<close>.
\<close>

definition sameDrawing :: "Turtle \<Rightarrow> Turtle \<Rightarrow> bool" where
  "sameDrawing t u =
     (ctx u = ctx t \<and> hidden u = hidden t \<and> wrap u = wrap t \<and> isPenDown u = isPenDown t \<and>
      color u = color t \<and> defaultColor u = defaultColor t \<and> width u = width t \<and>
      position u = position t \<and> angle u = angle t \<and> shape u = shape t)"

fun replayable :: "Call \<Rightarrow> bool" where
  "replayable CallPenToggle = False"
| "replayable (CallBackward distance) = False"
| "replayable (CallSetSpeed ms) = False"
| "replayable c = True"

text \<open>
  The expression that \<^verbatim>\<open>_doStraightLine\<close> binds to \<^verbatim>\<open>distanceToEdgeX\<close> (with \<open>newX\<close>,
  \<open>x\<close>, \<open>w\<close>, \<open>sinAngle\<close>) and to \<^verbatim>\<open>distanceToEdgeY\<close> (with \<open>newY\<close>, \<open>y\<close>, \<open>h\<close>,
  \<open>cosAngle\<close>).
\<close>

definition edgeDistance :: "number \<Rightarrow> number \<Rightarrow> number \<Rightarrow> number \<Rightarrow> number" where
  "edgeDistance new cur half dir = \<bar>(if new > cur then half - cur else half + cur) / dir\<bar>"


section \<open>Properties\<close>

subsection \<open>Rounding\<close>

lemma roundEven_int [simp]: "roundEven (of_int m) = m"
  by (simp add: roundEven_def)

lemma roundEven_error: "\<bar>of_int (roundEven q) - q\<bar> \<le> 1 / 2"
  unfolding roundEven_def Let_def by (auto; linarith)

lemma roundEven_near: "\<bar>q - of_int m\<bar> < 1 / 2 \<Longrightarrow> roundEven q = m"
proof -
  assume a: "\<bar>q - of_int m\<bar> < 1 / 2"
  have "\<bar>of_int (roundEven q) - q\<bar> \<le> 1 / 2" by (rule roundEven_error)
  with a have "\<bar>(of_int (roundEven q) :: real) - of_int m\<bar> < 1" by linarith
  then have "\<bar>roundEven q - m\<bar> < 1"
    by (metis of_int_abs of_int_diff of_int_less_1_iff)
  then show ?thesis by linarith
qed

lemma powr2_int: "(2::real) powr of_int k = 2 powi k"
  by (simp add: powr_real_of_int')

lemma powr2_int1: "(2::real) powr (of_int k + 1) = 2 powi (k + 1)"
  using powr2_int [of "k + 1"] by simp

lemma powi2_pos [simp]: "(0::real) < 2 powi k"
  by simp

lemma floor_log2_bounds:
  assumes "x \<noteq> 0"
  shows "2 powi \<lfloor>log 2 \<bar>x\<bar>\<rfloor> \<le> \<bar>x\<bar>" and "\<bar>x\<bar> < 2 powi (\<lfloor>log 2 \<bar>x\<bar>\<rfloor> + 1)"
proof -
  have pos: "0 < \<bar>x\<bar>" using assms by simp
  have "(2::real) powr of_int \<lfloor>log 2 \<bar>x\<bar>\<rfloor> \<le> \<bar>x\<bar> \<and> \<bar>x\<bar> < 2 powr of_int (\<lfloor>log 2 \<bar>x\<bar>\<rfloor> + 1)"
    using floor_log_eq_powr_iff [OF pos, of 2 "\<lfloor>log 2 \<bar>x\<bar>\<rfloor>"] by simp
  then show "2 powi \<lfloor>log 2 \<bar>x\<bar>\<rfloor> \<le> \<bar>x\<bar>" and "\<bar>x\<bar> < 2 powi (\<lfloor>log 2 \<bar>x\<bar>\<rfloor> + 1)"
    by (simp_all add: powr2_int powr2_int1)
qed

lemma floor_log2_eq:
  assumes "2 powi k \<le> \<bar>x\<bar>" and "\<bar>x\<bar> < 2 powi (k + 1)"
  shows "\<lfloor>log 2 \<bar>x\<bar>\<rfloor> = k"
proof -
  have "(0::real) < 2 powi k" by simp
  with assms(1) have pos: "0 < \<bar>x\<bar>" by linarith
  show ?thesis
    using floor_log_eq_powr_iff [OF pos, of 2 k] assms by (simp add: powr2_int powr2_int1)
qed

lemma round64_eqI:
  assumes "2 powi k \<le> \<bar>x\<bar>" and "\<bar>x\<bar> < 2 powi (k + 1)" and "- 1022 \<le> k"
    and "\<bar>x / 2 powi (k - 52) - of_int m\<bar> < 1 / 2"
    and "\<bar>of_int m * 2 powi (k - 52) :: real\<bar> < 2 ^ 1024"
  shows "round64 x = Fin (of_int m * 2 powi (k - 52))"
proof -
  have "(0::real) < 2 powi k" by simp
  with assms(1) have "0 < \<bar>x\<bar>" by linarith
  then have nz: "x \<noteq> 0" by simp
  have e: "max \<lfloor>log 2 \<bar>x\<bar>\<rfloor> (- 1022) = k"
    using floor_log2_eq [OF assms(1,2)] assms(3) by simp
  have m: "roundEven (x / 2 powi (k - 52)) = m"
    by (rule roundEven_near [OF assms(4)])
  show ?thesis
    using nz assms(5) by (simp add: round64_def e m Let_def)
qed

text \<open>The same with the integer rounding left to be computed, which covers ties.\<close>

lemma round64_valI:
  assumes "2 powi k \<le> \<bar>x\<bar>" and "\<bar>x\<bar> < 2 powi (k + 1)" and "- 1022 \<le> k"
    and "roundEven (x / 2 powi (k - 52)) = m"
    and "\<bar>of_int m * 2 powi (k - 52) :: real\<bar> < 2 ^ 1024"
  shows "round64 x = Fin (of_int m * 2 powi (k - 52))"
proof -
  have "(0::real) < 2 powi k" by simp
  with assms(1) have "0 < \<bar>x\<bar>" by linarith
  then have nz: "x \<noteq> 0" by simp
  have e: "max \<lfloor>log 2 \<bar>x\<bar>\<rfloor> (- 1022) = k"
    using floor_log2_eq [OF assms(1,2)] assms(3) by simp
  show ?thesis
    using nz assms(5) by (simp add: round64_def e assms(4) Let_def)
qed

text \<open>
  Three sums in doubles: \<open>0.1 + 0.2\<close> is a tie, which goes to the even neighbour above the
  double of \<open>0.3\<close>; \<open>100 + 2 ^ -50\<close> is 100.
\<close>

lemma plus_tenth_fifth:
  "round64 (1 / 10) = Fin (3602879701896397 / 2 ^ 55) \<and>
   round64 (2 / 10) = Fin (3602879701896397 / 2 ^ 54) \<and>
   round64 (3 / 10) = Fin (5404319552844595 / 2 ^ 54) \<and>
   Fin (3602879701896397 / 2 ^ 55) + Fin (3602879701896397 / 2 ^ 54)
     = Fin (5404319552844596 / 2 ^ 54)"
  using round64_valI [of "- 4" "1 / 10" 7205759403792794]
    round64_valI [of "- 3" "2 / 10" 7205759403792794]
    round64_valI [of "- 2" "3 / 10" 5404319552844595]
    round64_valI [of "- 2" "3602879701896397 / 2 ^ 55 + 3602879701896397 / 2 ^ 54"
      5404319552844596]
  by (simp add: power_int_minus roundEven_def)

lemma plus_absorbs: "Fin 100 + Fin (1 / 2 ^ 50) = Fin 100"
  using round64_valI [of 6 "100 + 1 / 2 ^ 50" 7036874417766400]
  by (simp add: power_int_minus roundEven_def)

text \<open>The rounding error: half a unit in the last place.\<close>

lemma round64_error:
  assumes "round64 x = Fin r"
  shows "\<bar>r - x\<bar> \<le> \<bar>x\<bar> / 2 ^ 53 + 1 / 2 ^ 1075"
proof (cases "x = 0")
  case True
  with assms show ?thesis by (simp add: round64_def)
next
  case False
  define k where "k = \<lfloor>log 2 \<bar>x\<bar>\<rfloor>"
  define e where "e = max k (- 1022)"
  define ulp :: real where "ulp = 2 powi (e - 52)"
  have ulp: "0 < ulp" by (simp add: ulp_def)
  have r: "r = of_int (roundEven (x / ulp)) * ulp"
    using assms False by (simp add: round64_def Let_def k_def e_def ulp_def split: if_splits)
  have "\<bar>of_int (roundEven (x / ulp)) - x / ulp\<bar> \<le> 1 / 2"
    by (rule roundEven_error)
  then have "\<bar>of_int (roundEven (x / ulp)) - x / ulp\<bar> * ulp \<le> 1 / 2 * ulp"
    using ulp by (intro mult_right_mono) simp_all
  moreover have "\<bar>of_int (roundEven (x / ulp)) - x / ulp\<bar> * ulp = \<bar>r - x\<bar>"
  proof -
    have "(of_int (roundEven (x / ulp)) - x / ulp) * ulp = r - x"
      using ulp by (simp add: r algebra_simps)
    then have "\<bar>r - x\<bar> = \<bar>of_int (roundEven (x / ulp)) - x / ulp\<bar> * \<bar>ulp\<bar>"
      by (simp add: abs_mult [symmetric])
    then show ?thesis
      using ulp by simp
  qed
  ultimately have half: "\<bar>r - x\<bar> \<le> ulp / 2" by simp
  have "ulp / 2 \<le> \<bar>x\<bar> / 2 ^ 53 + 1 / 2 ^ 1075"
  proof (cases "- 1022 \<le> k")
    case True
    then have "e = k" by (simp add: e_def)
    then have "ulp = 2 powi k / 2 ^ 52"
      by (simp add: ulp_def power_int_diff)
    moreover have "2 powi k \<le> \<bar>x\<bar>"
      using floor_log2_bounds(1) [OF False] by (simp add: k_def)
    ultimately have "ulp / 2 \<le> \<bar>x\<bar> / 2 ^ 53"
      by (simp add: field_simps)
    moreover have "(0::real) \<le> 1 / 2 ^ 1075" by simp
    ultimately show ?thesis by linarith
  next
    case False
    then have "e = - 1022" by (simp add: e_def)
    then have "ulp = 1 / 2 ^ 1074"
      by (simp add: ulp_def power_int_minus field_simps)
    then have "ulp / 2 = 1 / 2 ^ 1075" by simp
    then show ?thesis by simp
  qed
  with half show ?thesis by linarith
qed

lemma round64_cases: "(\<exists>r. round64 x = Fin r) \<or> round64 x = PInf \<or> round64 x = NInf"
  by (simp add: round64_def Let_def)

lemma powi2_less_D: "(2::real) powi a < 2 powi b \<Longrightarrow> a < b"
proof (rule ccontr)
  assume lt: "(2::real) powi a < 2 powi b" and "\<not> a < b"
  then have "b \<le> a" by simp
  then have "(2::real) powi b \<le> 2 powi a" by (intro power_int_increasing) simp_all
  with lt show False by simp
qed

lemma round64_0 [simp]: "round64 0 = Fin 0"
  by (simp add: round64_def)

text \<open>A value \<open>m * 2 ^ j\<close> with \<open>|m| < 2 ^ 53\<close> in range is a double: it is not rounded.\<close>

lemma round64_exact:
  assumes x: "x = of_int m * 2 powi j" and m: "\<bar>m\<bar> < 2 ^ 53" and j: "- 1074 \<le> j"
    and fin: "\<bar>x\<bar> < 2 ^ 1024"
  shows "round64 x = Fin x"
proof (cases "x = 0")
  case True
  then show ?thesis by simp
next
  case False
  define k where "k = \<lfloor>log 2 \<bar>x\<bar>\<rfloor>"
  define e where "e = max k (- 1022)"
  have "\<bar>x\<bar> = of_int \<bar>m\<bar> * 2 powi j"
    by (simp add: x abs_mult)
  also have "\<dots> < 2 ^ 53 * 2 powi j"
  proof -
    have "(of_int \<bar>m\<bar> :: real) < of_int (2 ^ 53)" using m by (simp only: of_int_less_iff)
    then show ?thesis by simp
  qed
  also have "\<dots> = 2 powi (53 + j)"
    by (simp add: power_int_add)
  finally have up: "\<bar>x\<bar> < 2 powi (53 + j)" .
  have "2 powi k \<le> \<bar>x\<bar>"
    using floor_log2_bounds(1) [OF False] by (simp add: k_def)
  with up have "(2::real) powi k < 2 powi (53 + j)" by linarith
  then have "k < 53 + j"
    by (rule powi2_less_D)
  then have ej: "e - 52 \<le> j"
    using j by (simp add: e_def)
  define n where "n = nat (j - (e - 52))"
  have jn: "j = (e - 52) + int n"
    using ej by (simp add: n_def)
  have "x / 2 powi (e - 52) = of_int m * 2 ^ n"
    by (simp add: x jn power_int_add)
  also have "\<dots> = of_int (m * 2 ^ n)" by simp
  finally have q: "x / 2 powi (e - 52) = of_int (m * 2 ^ n)" .
  have "of_int (roundEven (x / 2 powi (e - 52))) * 2 powi (e - 52) = x"
    unfolding q roundEven_int by (simp add: x jn power_int_add)
  then show ?thesis
    using False fin by (simp add: round64_def Let_def k_def [symmetric] e_def [symmetric])
qed

lemma round64_of_int: "\<bar>m\<bar> < 2 ^ 53 \<Longrightarrow> round64 (of_int m) = Fin (of_int m)"
proof -
  assume m: "\<bar>m\<bar> < 2 ^ 53"
  have "\<bar>of_int m :: real\<bar> < 2 ^ 1024"
  proof -
    have "\<bar>of_int m :: real\<bar> = of_int \<bar>m\<bar>" by simp
    also have "\<dots> < of_int (2 ^ 53)" using m by (simp only: of_int_less_iff)
    also have "\<dots> < 2 ^ 1024" by simp
    finally show ?thesis .
  qed
  then show ?thesis
    using round64_exact [of "of_int m" m 0] m by simp
qed

lemma round64_numeral [simp]:
  "numeral n < (9007199254740992 :: int) \<Longrightarrow> round64 (numeral n) = Fin (numeral n)"
  using round64_of_int [of "numeral n"] by simp

lemma round64_neg_numeral [simp]:
  "numeral n < (9007199254740992 :: int) \<Longrightarrow> round64 (- numeral n) = Fin (- numeral n)"
  using round64_of_int [of "- numeral n"] by simp

lemma round64_1 [simp]: "round64 1 = Fin 1"
  using round64_of_int [of 1] by simp

lemma round64_neg_1 [simp]: "round64 (- 1) = Fin (- 1)"
  using round64_of_int [of "- 1"] by simp

text \<open>Beyond the largest double the result is infinite.\<close>

lemma round64_overflow:
  assumes "2 ^ 1024 \<le> x"
  shows "round64 x = PInf"
proof -
  have "(0::real) < 2 ^ 1024" by simp
  with assms have pos: "0 < x" by linarith
  define k where "k = \<lfloor>log 2 \<bar>x\<bar>\<rfloor>"
  have lo: "2 powi k \<le> x" and hi: "x < 2 powi (k + 1)"
    using floor_log2_bounds [of x] pos by (simp_all add: k_def)
  have "(2::real) powi 1024 \<le> x" using assms by simp
  with hi have "(2::real) powi 1024 < 2 powi (k + 1)" by linarith
  then have "1024 < k + 1" by (rule powi2_less_D)
  then have k: "1024 \<le> k" by simp
  then have e: "max k (- 1022) = k" by simp
  define ulp :: real where "ulp = 2 powi (k - 52)"
  have ulp: "0 < ulp" by (simp add: ulp_def)
  have "2 powi k = 2 ^ 52 * ulp"
    by (simp add: ulp_def power_int_diff)
  with lo have "2 ^ 52 * ulp \<le> x" by simp
  then have "2 ^ 52 \<le> x / ulp" using ulp by (simp add: field_simps)
  then have "(of_int (2 ^ 52) :: real) \<le> x / ulp" by simp
  then have "2 ^ 52 \<le> \<lfloor>x / ulp\<rfloor>" by (simp only: le_floor_iff)
  moreover have "\<lfloor>x / ulp\<rfloor> \<le> roundEven (x / ulp)"
    by (simp add: roundEven_def Let_def)
  ultimately have "(2::int) ^ 52 \<le> roundEven (x / ulp)" by linarith
  then have "(of_int (2 ^ 52) :: real) \<le> of_int (roundEven (x / ulp))" by (simp only: of_int_le_iff)
  then have "2 ^ 52 * ulp \<le> of_int (roundEven (x / ulp)) * ulp"
    using ulp by (intro mult_right_mono) simp_all
  with \<open>2 powi k = 2 ^ 52 * ulp\<close> have "2 powi k \<le> of_int (roundEven (x / ulp)) * ulp" by simp
  moreover have "(2::real) powi 1024 \<le> 2 powi k"
    using k by (intro power_int_increasing) simp_all
  ultimately have "2 ^ 1024 \<le> of_int (roundEven (x / ulp)) * ulp" by simp
  then have "2 ^ 1024 \<le> \<bar>of_int (roundEven (x / ulp)) * ulp\<bar>" by linarith
  moreover have "\<lfloor>log 2 x\<rfloor> = k" using pos by (simp add: k_def)
  ultimately show ?thesis
    using pos by (simp add: round64_def Let_def e ulp_def [symmetric])
qed

text \<open>
  Below \<open>2 ^ 1023\<close> nothing overflows: the result is finite, and accurate to a relative
  error of \<open>2 ^ -53\<close> and an absolute error of \<open>2 ^ -1075\<close>.
\<close>

lemma round_ulp:
  assumes ulp: "0 < ulp"
  shows "\<bar>of_int (roundEven (x / ulp)) * ulp - x\<bar> \<le> ulp / 2"
proof -
  have "\<bar>of_int (roundEven (x / ulp)) - x / ulp\<bar> \<le> 1 / 2"
    by (rule roundEven_error)
  then have "\<bar>of_int (roundEven (x / ulp)) - x / ulp\<bar> * ulp \<le> 1 / 2 * ulp"
    using ulp by (intro mult_right_mono) simp_all
  moreover have "\<bar>of_int (roundEven (x / ulp)) - x / ulp\<bar> * ulp
      = \<bar>of_int (roundEven (x / ulp)) * ulp - x\<bar>"
  proof -
    have "(of_int (roundEven (x / ulp)) - x / ulp) * ulp = of_int (roundEven (x / ulp)) * ulp - x"
      using ulp by (simp add: algebra_simps)
    then have "\<bar>of_int (roundEven (x / ulp)) * ulp - x\<bar>
        = \<bar>of_int (roundEven (x / ulp)) - x / ulp\<bar> * \<bar>ulp\<bar>"
      by (simp add: abs_mult [symmetric])
    then show ?thesis
      using ulp by simp
  qed
  ultimately show ?thesis by simp
qed

lemma round64_finite:
  assumes "\<bar>x\<bar> < 2 ^ 1023"
  shows "\<exists>r. round64 x = Fin r"
proof (cases "x = 0")
  case True
  then show ?thesis by simp
next
  case False
  define k where "k = \<lfloor>log 2 \<bar>x\<bar>\<rfloor>"
  define e where "e = max k (- 1022)"
  define ulp :: real where "ulp = 2 powi (e - 52)"
  define r where "r = of_int (roundEven (x / ulp)) * ulp"
  have ulp: "0 < ulp" by (simp add: ulp_def)
  have half: "\<bar>r - x\<bar> \<le> ulp / 2"
    unfolding r_def by (rule round_ulp [OF ulp])
  have "2 powi k \<le> \<bar>x\<bar>"
    using floor_log2_bounds(1) [OF False] by (simp add: k_def)
  with assms have "(2::real) powi k < 2 powi 1023" by simp
  then have "k < 1023" by (rule powi2_less_D)
  then have "e - 52 \<le> 970" by (simp add: e_def)
  then have "ulp \<le> 2 powi 970"
    unfolding ulp_def by (intro power_int_increasing) simp_all
  with half have "\<bar>r - x\<bar> \<le> 2 powi 970 / 2" by simp
  with assms have "\<bar>r\<bar> < 2 ^ 1023 + 2 powi 970 / 2" by linarith
  also have "\<dots> < 2 ^ 1024" by simp
  finally have "\<not> 2 ^ 1024 \<le> \<bar>r\<bar>" by simp
  then have "round64 x = Fin r"
    using False by (simp add: round64_def Let_def k_def e_def ulp_def r_def)
  then show ?thesis by blast
qed

lemma round64_near:
  assumes "\<bar>x\<bar> < 2 ^ 1023"
  obtains r where "round64 x = Fin r" and "\<bar>r - x\<bar> \<le> \<bar>x\<bar> / 2 ^ 53 + 1 / 2 ^ 1075"
  using round64_finite [OF assms] round64_error by blast

text \<open>
  Three roundings at \<open>10 ^ 19\<close>, where the doubles are 2048 apart, and three at \<open>2 ^ 1023\<close>.
\<close>

lemma round64_big [simp]: "round64 10000000000000000000 = Fin 10000000000000000000"
  using round64_exact [of 10000000000000000000 4882812500000000 11] by simp

lemma round64_big_minus_100 [simp]:
  "round64 9999999999999999900 = Fin 10000000000000000000"
  using round64_eqI [of 63 9999999999999999900 4882812500000000] by simp

lemma round64_big_minus_200 [simp]:
  "round64 9999999999999999800 = Fin 10000000000000000000"
  using round64_eqI [of 63 9999999999999999800 4882812500000000] by simp

lemma round64_2_1023: "round64 (2 ^ 1023) = Fin (2 ^ 1023)"
  using round64_exact [of "2 ^ 1023" 1 1023] by simp

lemma round64_neg_2_1023: "round64 (- (2 ^ 1023)) = Fin (- (2 ^ 1023))"
  using round64_exact [of "- (2 ^ 1023)" "- 1" 1023] by simp

lemma round64_2_1024: "round64 (2 ^ 1023 + 2 ^ 1023) = PInf"
  by (rule round64_overflow) simp

lemma degToRad_0 [simp]: "degToRad (Fin 0) = Fin 0"
  by (simp add: degToRad_def Math_PI_def)

lemmas method_defs =
  clear_def clear'_def hide_def hide'_def showTurtle_def show'_def
  setShape_def setShape'_def setSpeed_def setSpeed'_def penUp_def penUp'_def
  penDown_def penDown'_def penToggle_def penToggle'_def setColor_def setColor'_def
  setWidth_def setWidth'_def setLineCap_def setLineCap'_def setAngle_def setAngle'_def
  left_def left'_def right_def right'_def goto_def goto'_def reset_def reset'_def
  isInStep_def clearContext_def stroke_def setInterval_def clearInterval_def

lemmas line_defs =
  forward_def forward'_def backward_def backward'_def doStraightLine_def

lemma turtle0_eq:
  "turtle0 =
     \<lparr>ctx = \<lparr>canvas_width = Fin 200, canvas_height = Fin 200,
              lineCap = CapRound, strokes = []\<rparr>,
      hidden = False, wrap = True, isPenDown = True, stepByStep = False, step = False,
      steps = [], speed = None, interval = None,
      color = RGBA (Fin 255) (Fin 0) (Fin 255) (Fin 1),
      defaultColor = RGBA (Fin 255) (Fin 0) (Fin 255) (Fin 1),
      width = Fin 1, turtleSizeModifier = Fin 1, position = (Fin 0, Fin 0),
      angle = Fin 0, shape = [], timers = [], timerCount = 0\<rparr>"
  by (simp add: turtle0_def newTurtle_def noOptions_def canvas200_def newColor_def)

subsection \<open>Turning\<close>

lemma left_immediate: "isInStep t \<Longrightarrow> angle (left a t) = angle t - a"
  by (simp add: left_def left'_def)

lemma right_immediate: "isInStep t \<Longrightarrow> angle (right a t) = angle t - a"
  by (simp add: right_def right'_def)

text \<open>
  C4: in immediate mode \<^verbatim>\<open>left(a)\<close> sets the angle to \<open>angle - a\<close> and \<^verbatim>\<open>right(a)\<close> sets
  it to \<open>angle + a\<close>, without normalisation. The code of \<^verbatim>\<open>_right\<close> subtracts: on the fresh
  turtle, whose angle is 0, \<^verbatim>\<open>right(90)\<close> gives the angle \<open>-90\<close>, the same as \<^verbatim>\<open>left(90)\<close>,
  where the property asks for \<open>90\<close>.
\<close>

theorem right_subtracts:
  "stepByStep turtle0 = False \<and> angle turtle0 = Fin 0 \<and>
   angle (left (Fin 90) turtle0) = Fin (- 90) \<and>
   angle (right (Fin 90) turtle0) = Fin (- 90) \<and>
   angle (right (Fin 90) turtle0) \<noteq> angle turtle0 + Fin 90"
  by (simp add: turtle0_eq method_defs)

subsection \<open>One iteration of the loop\<close>

text \<open>The loop unfolded once, and its four ways through an iteration.\<close>

lemma loop_unfold:
  "straightLineLoop wr w h s c x y nx ny dst path =
     (if dst > Fin 0 then
        if wr \<and> \<bar>nx\<bar> > w \<and> edgeDistance nx x w s \<le> edgeDistance ny y h c then
          straightLineLoop wr w h s c
            (if nx > Fin 0 then - w else w) (y + c * edgeDistance nx x w s)
            (nx - (if nx > Fin 0 then w * Fin 2 else - (w * Fin 2))) ny
            (dst - edgeDistance nx x w s) (path @ [((x, y), (nx, ny))])
        else if wr \<and> \<bar>ny\<bar> > h \<and> edgeDistance nx x w s \<ge> edgeDistance ny y h c then
          straightLineLoop wr w h s c
            (x + s * edgeDistance ny y h c) (if ny > Fin 0 then - h else h)
            nx (ny - (if ny > Fin 0 then h * Fin 2 else - (h * Fin 2)))
            (dst - edgeDistance ny y h c) (path @ [((x, y), (nx, ny))])
        else
          straightLineLoop wr w h s c x y nx ny (Fin 0) (path @ [((x, y), (nx, ny))])
      else Some (nx, ny, path))"
  by (subst straightLineLoop.simps) (simp only: edgeDistance_def Let_def)

lemma loop_exit:
  "\<not> dst > Fin 0 \<Longrightarrow> straightLineLoop wr w h s c x y nx ny dst path = Some (nx, ny, path)"
  by (subst loop_unfold) simp


lemma loop_crossY:
  assumes "dst > Fin 0"
    and "\<not> (wr \<and> \<bar>nx\<bar> > w \<and> edgeDistance nx x w s \<le> edgeDistance ny y h c)"
    and "wr \<and> \<bar>ny\<bar> > h \<and> edgeDistance nx x w s \<ge> edgeDistance ny y h c"
  shows "straightLineLoop wr w h s c x y nx ny dst path =
   straightLineLoop wr w h s c
     (x + s * edgeDistance ny y h c) (if ny > Fin 0 then - h else h)
     nx (ny - (if ny > Fin 0 then h * Fin 2 else - (h * Fin 2)))
     (dst - edgeDistance ny y h c) (path @ [((x, y), (nx, ny))])"
  apply (subst loop_unfold)
  apply (subst if_P, fact assms(1))
  apply (subst if_not_P, fact assms(2))
  apply (subst if_P, fact assms(3))
  apply (rule refl)
  done

lemma loop_last:
  assumes "dst > Fin 0"
    and "\<not> (wr \<and> \<bar>nx\<bar> > w \<and> edgeDistance nx x w s \<le> edgeDistance ny y h c)"
    and "\<not> (wr \<and> \<bar>ny\<bar> > h \<and> edgeDistance nx x w s \<ge> edgeDistance ny y h c)"
  shows "straightLineLoop wr w h s c x y nx ny dst path =
     Some (nx, ny, path @ [((x, y), (nx, ny))])"
  apply (subst loop_unfold)
  apply (subst if_P, fact assms(1))
  apply (subst if_not_P, fact assms(2))
  apply (subst if_not_P, fact assms(3))
  apply (simp add: loop_exit)
  done

text \<open>
  Induction over the runs of the loop that return: a property of the arguments and the
  result holds for every such run if it holds when the loop exits at once and is
  carried backwards over each of the three kinds of iteration.
\<close>

lemma loop_induct [consumes 1, case_names exit crossX crossY last]:
  assumes run: "straightLineLoop wr w h s c x y nx ny dst path = Some r"
    and exit: "\<And>wr w h s c x y nx ny dst path.
      \<not> dst > Fin 0 \<Longrightarrow> P wr w h s c x y nx ny dst path (nx, ny, path)"
    and crossX: "\<And>wr w h s c x y nx ny dst path r.
      dst > Fin 0 \<Longrightarrow>
      wr \<and> \<bar>nx\<bar> > w \<and> edgeDistance nx x w s \<le> edgeDistance ny y h c \<Longrightarrow>
      P wr w h s c
        (if nx > Fin 0 then - w else w) (y + c * edgeDistance nx x w s)
        (nx - (if nx > Fin 0 then w * Fin 2 else - (w * Fin 2))) ny
        (dst - edgeDistance nx x w s) (path @ [((x, y), (nx, ny))]) r \<Longrightarrow>
      P wr w h s c x y nx ny dst path r"
    and crossY: "\<And>wr w h s c x y nx ny dst path r.
      dst > Fin 0 \<Longrightarrow>
      \<not> (wr \<and> \<bar>nx\<bar> > w \<and> edgeDistance nx x w s \<le> edgeDistance ny y h c) \<Longrightarrow>
      wr \<and> \<bar>ny\<bar> > h \<and> edgeDistance nx x w s \<ge> edgeDistance ny y h c \<Longrightarrow>
      P wr w h s c
        (x + s * edgeDistance ny y h c) (if ny > Fin 0 then - h else h)
        nx (ny - (if ny > Fin 0 then h * Fin 2 else - (h * Fin 2)))
        (dst - edgeDistance ny y h c) (path @ [((x, y), (nx, ny))]) r \<Longrightarrow>
      P wr w h s c x y nx ny dst path r"
    and last: "\<And>wr w h s c x y nx ny dst path r.
      dst > Fin 0 \<Longrightarrow>
      \<not> (wr \<and> \<bar>nx\<bar> > w \<and> edgeDistance nx x w s \<le> edgeDistance ny y h c) \<Longrightarrow>
      \<not> (wr \<and> \<bar>ny\<bar> > h \<and> edgeDistance nx x w s \<ge> edgeDistance ny y h c) \<Longrightarrow>
      P wr w h s c x y nx ny (Fin 0) (path @ [((x, y), (nx, ny))]) r \<Longrightarrow>
      P wr w h s c x y nx ny dst path r"
  shows "P wr w h s c x y nx ny dst path r"
proof (rule straightLineLoop.raw_induct [where P = P and ya = r
      and xa = "((((((((((wr, w), h), s), c), x), y), nx), ny), dst), path)", unfolded prod.case])
  show "straightLineLoop wr w h s c x y nx ny dst path = Some r"
    by (rule run)
next
  fix loop wr w h s c x y nx ny dst path r
  assume ih: "\<And>wr w h s c x y nx ny dst path r.
        loop wr w h s c x y nx ny dst path = Some r \<Longrightarrow> P wr w h s c x y nx ny dst path r"
    and raw: "(if Fin 0 < dst
    then let distanceToEdgeX = \<bar>(if x < nx then w - x else w + x) / s\<bar>;
             distanceToEdgeY = \<bar>(if y < ny then h - y else h + y) / c\<bar>
         in if wr \<and> w < \<bar>nx\<bar> \<and> distanceToEdgeX \<le> distanceToEdgeY
            then loop wr w h s c (if Fin 0 < nx then - w else w)
                  (y + c * distanceToEdgeX)
                  (nx - (if Fin 0 < nx then w * Fin 2 else - (w * Fin 2)))
                  ny (dst - distanceToEdgeX) (path @ [((x, y), nx, ny)])
            else if wr \<and> h < \<bar>ny\<bar> \<and> distanceToEdgeY \<le> distanceToEdgeX
                 then loop wr w h s c (x + s * distanceToEdgeY)
                       (if Fin 0 < ny then - h else h) nx
                       (ny - (if Fin 0 < ny then h * Fin 2 else - (h * Fin 2)))
                       (dst - distanceToEdgeY) (path @ [((x, y), nx, ny)])
                 else loop wr w h s c x y nx ny (Fin 0) (path @ [((x, y), nx, ny)])
    else Some (nx, ny, path)) = Some r"
  from raw have body: "(if dst > Fin 0 then
        if wr \<and> \<bar>nx\<bar> > w \<and> edgeDistance nx x w s \<le> edgeDistance ny y h c then
          loop wr w h s c
            (if nx > Fin 0 then - w else w) (y + c * edgeDistance nx x w s)
            (nx - (if nx > Fin 0 then w * Fin 2 else - (w * Fin 2))) ny
            (dst - edgeDistance nx x w s) (path @ [((x, y), (nx, ny))])
        else if wr \<and> \<bar>ny\<bar> > h \<and> edgeDistance nx x w s \<ge> edgeDistance ny y h c then
          loop wr w h s c
            (x + s * edgeDistance ny y h c) (if ny > Fin 0 then - h else h)
            nx (ny - (if ny > Fin 0 then h * Fin 2 else - (h * Fin 2)))
            (dst - edgeDistance ny y h c) (path @ [((x, y), (nx, ny))])
        else
          loop wr w h s c x y nx ny (Fin 0) (path @ [((x, y), (nx, ny))])
      else Some (nx, ny, path)) = Some r"
    unfolding edgeDistance_def Let_def .
  show "P wr w h s c x y nx ny dst path r"
  proof (cases "dst > Fin 0")
    case False
    from body have "r = (nx, ny, path)"
      unfolding if_not_P [OF False] by simp
    with exit [OF False] show ?thesis by simp
  next
    case pos: True
    show ?thesis
    proof (cases "wr \<and> \<bar>nx\<bar> > w \<and> edgeDistance nx x w s \<le> edgeDistance ny y h c")
      case cx: True
      from body have "loop wr w h s c
            (if nx > Fin 0 then - w else w) (y + c * edgeDistance nx x w s)
            (nx - (if nx > Fin 0 then w * Fin 2 else - (w * Fin 2))) ny
            (dst - edgeDistance nx x w s) (path @ [((x, y), (nx, ny))]) = Some r"
        unfolding if_P [OF pos] if_P [OF cx] .
      then show ?thesis
        by (intro crossX [OF pos cx] ih)
    next
      case nx: False
      show ?thesis
      proof (cases "wr \<and> \<bar>ny\<bar> > h \<and> edgeDistance nx x w s \<ge> edgeDistance ny y h c")
        case cy: True
        from body have "loop wr w h s c
            (x + s * edgeDistance ny y h c) (if ny > Fin 0 then - h else h)
            nx (ny - (if ny > Fin 0 then h * Fin 2 else - (h * Fin 2)))
            (dst - edgeDistance ny y h c) (path @ [((x, y), (nx, ny))]) = Some r"
          unfolding if_P [OF pos] if_not_P [OF nx] if_P [OF cy] .
        then show ?thesis
          by (intro crossY [OF pos nx cy] ih)
      next
        case ny: False
        from body have
          "loop wr w h s c x y nx ny (Fin 0) (path @ [((x, y), (nx, ny))]) = Some r"
          unfolding if_P [OF pos] if_not_P [OF nx] if_not_P [OF ny] .
        then show ?thesis
          by (intro last [OF pos nx ny] ih)
      qed
    qed
  qed
qed

subsection \<open>Queueing and replay\<close>

text \<open>Outside a step and in step-by-step mode, every call but \<^verbatim>\<open>penToggle\<close> pushes its own step.\<close>

lemma invoke_queued:
  "\<not> isInStep t \<Longrightarrow> c \<noteq> CallPenToggle \<Longrightarrow>
   invoke c t = Some (t\<lparr>steps := steps t @ [stepOf c]\<rparr>)"
  by (cases c) (simp_all add: method_defs line_defs)

text \<open>
  C1: a sequence of calls queued in step-by-step mode and then drained leaves the same
  position, angle, pen, visibility, colour, width and shape as the same calls in immediate
  mode, and no queued step is left without effect. The code breaks this twice. The step
  queued by \<^verbatim>\<open>penToggle\<close> is a \<^verbatim>\<open>PenDown\<close> step: on the fresh turtle the immediate call lifts
  the pen, the replayed one leaves it down. And \<^verbatim>\<open>doStep\<close> has no case for a
  \<^verbatim>\<open>Backward\<close> step: the immediate \<^verbatim>\<open>backward(10)\<close> moves the turtle to \<open>(0, -10)\<close>, the
  replayed one is taken from the queue and leaves the turtle at the origin.
\<close>

theorem replay_differs_from_immediate:
  "map_option isPenDown (invokeAll [CallPenToggle] turtle0) = Some False \<and>
   map_option isPenDown
     (Option.bind (invokeAll [CallPenToggle] (setSpeed (Fin 50) turtle0)) drain) = Some True \<and>
   map_option position (invokeAll [CallBackward (Fin 10)] turtle0) = Some (Fin 0, Fin (- 10)) \<and>
   map_option steps (invokeAll [CallBackward (Fin 10)] (setSpeed (Fin 50) turtle0))
     = Some [Backward (Fin 10)] \<and>
   map_option position
     (Option.bind (invokeAll [CallBackward (Fin 10)] (setSpeed (Fin 50) turtle0)) drain)
     = Some (Fin 0, Fin 0) \<and>
   map_option steps
     (Option.bind (invokeAll [CallBackward (Fin 10)] (setSpeed (Fin 50) turtle0)) drain)
     = Some [] \<and>
   map_option turtleState (invokeAll [CallPenToggle] turtle0) \<noteq>
   map_option turtleState
     (Option.bind (invokeAll [CallPenToggle] (setSpeed (Fin 50) turtle0)) drain) \<and>
   map_option turtleState (invokeAll [CallBackward (Fin 10)] turtle0) \<noteq>
   map_option turtleState
     (Option.bind (invokeAll [CallBackward (Fin 10)] (setSpeed (Fin 50) turtle0)) drain)"
  by (simp add: turtle0_eq method_defs line_defs drain_def nextStep_def
      straightLineLoop.simps Let_def turtleState_def)

text \<open>
  C2: with \<open>runNow = \<not> stepByStep \<or> step\<close>, a call runs at once when \<open>runNow\<close> holds, and
  otherwise appends exactly one step describing the call and changes no field of the
  state. In step-by-step mode the call \<^verbatim>\<open>penToggle()\<close> appends one step and changes no
  field, but the step is \<^verbatim>\<open>PenDown\<close>, which describes the call \<^verbatim>\<open>penDown()\<close>.
\<close>

theorem penToggle_queues_PenDown:
  "stepByStep (setSpeed (Fin 50) turtle0) = True \<and>
   step (setSpeed (Fin 50) turtle0) = False \<and>
   invoke CallPenToggle (setSpeed (Fin 50) turtle0)
     = Some ((setSpeed (Fin 50) turtle0)\<lparr>steps := [PenDown]\<rparr>) \<and>
   stepOf CallPenToggle = PenToggle \<and> stepOf CallPenDown = PenDown"
  by (simp add: turtle0_eq method_defs)

text \<open>
  For the replayable calls the replay is faithful: a replayed step runs the same
  private method as the immediate call, on a turtle that draws the same.
\<close>

lemma doStraightLine_sameDrawing:
  assumes "sameDrawing t u" and "isInStep t" and "isInStep u"
  shows "rel_option sameDrawing (doStraightLine d t) (doStraightLine d u)"
proof -
  have eq: "ctx u = ctx t" "wrap u = wrap t" "isPenDown u = isPenDown t" "position u = position t"
    "angle u = angle t"
    using assms(1) by (simp_all add: sameDrawing_def)
  show ?thesis
    using assms
    by (auto simp: doStraightLine_def Let_def eq goto_def goto'_def stroke_def sameDrawing_def
        isInStep_def split: option.splits)
qed

lemma doStraightLine_flags:
  "isInStep t \<Longrightarrow> doStraightLine d t = Some t' \<Longrightarrow>
   steps t' = steps t \<and> stepByStep t' = stepByStep t \<and> step t' = step t"
  by (auto simp: doStraightLine_def Let_def goto_def goto'_def stroke_def isInStep_def
      split: option.splits if_splits)

lemma replay_forward:
  assumes "sameDrawing t u" and "\<not> stepByStep t"
  shows "rel_option (\<lambda>t' u'. sameDrawing t' u' \<and> \<not> stepByStep t' \<and> steps u' = rest)
     (forward d t) (nextStep (u\<lparr>steps := Forward d # rest\<rparr>))"
proof -
  let ?v = "u\<lparr>steps := rest, step := True\<rparr>"
  have t: "isInStep t" and v: "isInStep ?v"
    using assms(2) by (simp_all add: isInStep_def)
  have sd: "sameDrawing t ?v"
    using assms(1) by (simp add: sameDrawing_def)
  have rel: "rel_option sameDrawing (doStraightLine d t) (doStraightLine d ?v)"
    by (rule doStraightLine_sameDrawing [OF sd t v])
  show ?thesis
  proof (cases "doStraightLine d t")
    case None
    with rel have "doStraightLine d ?v = None"
      by (cases "doStraightLine d ?v") simp_all
    with None show ?thesis
      using t v by (simp add: forward_def forward'_def nextStep_def)
  next
    case (Some t')
    with rel obtain v' where v': "doStraightLine d ?v = Some v'" and sd': "sameDrawing t' v'"
      by (cases "doStraightLine d ?v") simp_all
    have "\<not> stepByStep t'"
      using doStraightLine_flags [OF t Some] assms(2) by simp
    moreover have "steps v' = rest"
      using doStraightLine_flags [OF v v'] by simp
    moreover have "sameDrawing t' (v'\<lparr>step := False\<rparr>)"
      using sd' by (simp add: sameDrawing_def)
    ultimately show ?thesis
      using Some v' t v by (simp add: forward_def forward'_def nextStep_def)
  qed
qed

lemma replay_one:
  assumes "sameDrawing t u" and "\<not> stepByStep t" and "replayable c"
  shows "rel_option (\<lambda>t' u'. sameDrawing t' u' \<and> \<not> stepByStep t' \<and> steps u' = rest)
     (invoke c t) (nextStep (u\<lparr>steps := stepOf c # rest\<rparr>))"
proof (cases c)
  case (CallForward d)
  then show ?thesis
    using replay_forward [OF assms(1,2)] by simp
qed (use assms in \<open>simp_all add: sameDrawing_def nextStep_def method_defs Let_def\<close>)

lemma invokeAll_queued:
  "\<not> isInStep u \<Longrightarrow> \<forall>c \<in> set cs. replayable c \<Longrightarrow>
   invokeAll cs u = Some (u\<lparr>steps := steps u @ map stepOf cs\<rparr>)"
proof (induction cs arbitrary: u)
  case Nil
  then show ?case by simp
next
  case (Cons c cs)
  have c: "c \<noteq> CallPenToggle"
    using Cons.prems(2) by auto
  have q: "invoke c u = Some (u\<lparr>steps := steps u @ [stepOf c]\<rparr>)"
    using invoke_queued [OF Cons.prems(1) c] .
  have "\<not> isInStep (u\<lparr>steps := steps u @ [stepOf c]\<rparr>)"
    using Cons.prems(1) by (simp add: isInStep_def)
  from Cons.IH [OF this] Cons.prems(2) q show ?case
    by simp
qed

lemma replay_all:
  "sameDrawing t u \<Longrightarrow> \<not> stepByStep t \<Longrightarrow> \<forall>c \<in> set cs. replayable c \<Longrightarrow>
   steps u = map stepOf cs \<Longrightarrow>
   rel_option (\<lambda>t' u'. sameDrawing t' u' \<and> steps u' = [])
     (invokeAll cs t) (nextSteps (length cs) u)"
proof (induction cs arbitrary: t u)
  case Nil
  then show ?case by simp
next
  case (Cons c cs)
  have u: "u = u\<lparr>steps := stepOf c # map stepOf cs\<rparr>"
    using Cons.prems(4) by simp
  have c: "replayable c"
    using Cons.prems(3) by simp
  have one: "rel_option (\<lambda>t' u'. sameDrawing t' u' \<and> \<not> stepByStep t' \<and> steps u' = map stepOf cs)
      (invoke c t) (nextStep u)"
    using replay_one [OF Cons.prems(1,2) c, of "map stepOf cs"] u by simp
  show ?case
  proof (cases "invoke c t")
    case None
    with one have "nextStep u = None"
      by (cases "nextStep u") simp_all
    with None show ?thesis by simp
  next
    case (Some t')
    with one obtain u' where u': "nextStep u = Some u'" and
      r: "sameDrawing t' u'" "\<not> stepByStep t'" "steps u' = map stepOf cs"
      by (cases "nextStep u") simp_all
    from Cons.IH [OF r(1,2) _ r(3)] Cons.prems(3) Some u' show ?thesis
      by simp
  qed
qed

text \<open>
  For a sequence of replayable calls the queued run, once drained, and the immediate run
  end with the same state of the turtle, or both fail to return.
\<close>

lemma replay_equivalence:
  assumes "sameDrawing t u" and "\<not> stepByStep t" and "stepByStep u" and "\<not> step u"
    and "steps u = []" and "\<forall>c \<in> set cs. replayable c"
  shows "rel_option (\<lambda>t' u'. turtleState t' = turtleState u' \<and> steps u' = [])
     (invokeAll cs t) (Option.bind (invokeAll cs u) drain)"
proof -
  let ?q = "u\<lparr>steps := map stepOf cs\<rparr>"
  have "\<not> isInStep u"
    using assms(3,4) by (simp add: isInStep_def)
  then have q: "invokeAll cs u = Some ?q"
    using invokeAll_queued [of u cs] assms(5,6) by simp
  have "sameDrawing t ?q"
    using assms(1) by (simp add: sameDrawing_def)
  then have "rel_option (\<lambda>t' u'. sameDrawing t' u' \<and> steps u' = [])
      (invokeAll cs t) (nextSteps (length cs) ?q)"
    using replay_all [of t ?q cs] assms(2,6) by simp
  then have "rel_option (\<lambda>t' u'. sameDrawing t' u' \<and> steps u' = [])
      (invokeAll cs t) (Option.bind (invokeAll cs u) drain)"
    by (simp add: q drain_def)
  then show ?thesis
    by (rule option.rel_mono_strong) (simp add: sameDrawing_def turtleState_def)
qed

subsection \<open>Moving backward\<close>

text \<open>
  In immediate mode \<^verbatim>\<open>backward(d)\<close> with \<open>d > 0\<close> moves the turtle along the straight line,
  without wrapping, and strokes nothing.
\<close>

lemma backward_moves_straight:
  assumes "isInStep t" and "0 < d"
  shows "\<exists>t'. backward (Fin d) t = Some t' \<and>
     position t' =
       (fst (position t) + Math_sin (degToRad (angle t)) * Fin (- d),
        snd (position t) + Math_cos (degToRad (angle t)) * Fin (- d)) \<and>
     strokes (ctx t') = strokes (ctx t)"
  using assms by (auto simp: line_defs loop_exit Let_def method_defs)

text \<open>
  C3: \<^verbatim>\<open>backward(d)\<close> with \<open>d > 0\<close> runs the line routine with the distance \<open>-d\<close>, wraps
  across the boundary when wrapping is enabled and the destination leaves the canvas, and
  strokes the segments when the pen is down. The loop of the routine runs while the
  distance is positive, so for \<^verbatim>\<open>backward\<close> it never runs: on the fresh turtle (wrapping
  enabled, pen down, canvas of half-extent 100) \<^verbatim>\<open>backward(150)\<close> leaves the turtle at
  \<open>(0, -150)\<close>, outside the canvas, and strokes nothing, where \<^verbatim>\<open>forward(150)\<close> wraps to
  \<open>(0, -50)\<close> and strokes two segments.
\<close>

theorem backward_neither_wraps_nor_draws:
  "stepByStep turtle0 = False \<and> wrap turtle0 = True \<and> isPenDown turtle0 = True \<and>
   map_option position (backward (Fin 150) turtle0) = Some (Fin 0, Fin (- 150)) \<and>
   map_option strokes (map_option ctx (backward (Fin 150) turtle0)) = Some [] \<and>
   map_option position (forward (Fin 150) turtle0) = Some (Fin 0, Fin (- 50)) \<and>
   map_option strokes (map_option ctx (forward (Fin 150) turtle0))
     = Some [((Fin 0, Fin 0), (Fin 0, Fin 150)),
             ((Fin 0, Fin (- 100)), (Fin 0, Fin (- 50)))]"
  by (simp add: turtle0_eq method_defs line_defs straightLineLoop.simps Let_def)

subsection \<open>The line routine without wrapping\<close>

lemma loop_nowrap:
  "straightLineLoop False w h s c x y nx ny dst path =
     Some (nx, ny, if dst > Fin 0 then path @ [((x, y), (nx, ny))] else path)"
proof (cases "dst > Fin 0")
  case True
  then show ?thesis
    by (simp add: loop_last)
next
  case False
  then show ?thesis
    by (simp add: loop_exit)
qed

lemma doStraightLine_nowrap:
  "wrap t = False \<Longrightarrow> isInStep t \<Longrightarrow>
   \<exists>t'. doStraightLine dst t = Some t' \<and>
        position t' =
          (fst (position t) + Math_sin (degToRad (angle t)) * dst,
           snd (position t) + Math_cos (degToRad (angle t)) * dst) \<and>
        angle t' = angle t \<and> wrap t' = wrap t \<and> isInStep t'"
  by (simp add: doStraightLine_def loop_nowrap Let_def method_defs)

text \<open>
  For a heading of moderate size the direction vector is finite and within \<open>2 ^ -52\<close>
  of the sine and the cosine of one angle \<open>q\<close>, the rounded angle in radians.
\<close>

lemma direction_finite:
  assumes a: "\<bar>a\<bar> \<le> 2 ^ 1000"
  obtains q s c where "Math_sin (degToRad (Fin a)) = Fin s"
    and "Math_cos (degToRad (Fin a)) = Fin c"
    and "\<bar>s - sin q\<bar> \<le> 1 / 2 ^ 52" and "\<bar>c - cos q\<bar> \<le> 1 / 2 ^ 52"
proof -
  define eta :: real where "eta = 1 / 2 ^ 1075"
  define B :: real where "B = 2 ^ 1000"
  define M :: real where "M = 2 ^ 1023"
  define p0 :: real where "p0 = a * (884279719003555 / 281474976710656)"
  have eta: "0 \<le> eta" "eta \<le> 1" "1 / 2 ^ 53 + eta \<le> 1 / 2 ^ 52"
    by (simp_all add: eta_def)
  have BM: "8 * B + 1 < M" "0 \<le> B" "1 < M"
    by (simp_all add: B_def M_def)
  note near = round64_near [folded eta_def M_def]
  have "\<bar>p0\<bar> = \<bar>a\<bar> * (884279719003555 / 281474976710656)"
    by (simp add: p0_def abs_mult)
  also have "\<dots> \<le> \<bar>a\<bar> * 4"
    by (intro mult_left_mono) simp_all
  finally have p0: "\<bar>p0\<bar> \<le> 4 * \<bar>a\<bar>" by simp
  with a BM have "\<bar>p0\<bar> < M"
    unfolding B_def [symmetric] by linarith
  then obtain p where p: "round64 p0 = Fin p" "\<bar>p - p0\<bar> \<le> \<bar>p0\<bar> / 2 ^ 53 + eta"
    by (rule near)
  have "\<bar>p0\<bar> / 2 ^ 53 \<le> \<bar>p0\<bar>"
    by (simp add: field_simps)
  with p(2) have "\<bar>p\<bar> \<le> 2 * \<bar>p0\<bar> + eta"
    by linarith
  with p0 a BM eta have pb: "\<bar>p\<bar> < M"
    unfolding B_def [symmetric] by linarith
  have "\<bar>p / 180\<bar> \<le> \<bar>p\<bar>" by simp
  with pb have "\<bar>p / 180\<bar> < M" by linarith
  then obtain q where q: "round64 (p / 180) = Fin q"
    by (rule near)
  have rad: "degToRad (Fin a) = Fin q"
    using p(1) q by (simp add: degToRad_def Math_PI_def p0_def)
  have "\<bar>sin q\<bar> < M"
    using abs_sin_le_one [of q] BM by linarith
  then obtain s where s: "round64 (sin q) = Fin s" "\<bar>s - sin q\<bar> \<le> \<bar>sin q\<bar> / 2 ^ 53 + eta"
    by (rule near)
  have "\<bar>cos q\<bar> < M"
    using abs_cos_le_one [of q] BM by linarith
  then obtain c where c: "round64 (cos q) = Fin c" "\<bar>c - cos q\<bar> \<le> \<bar>cos q\<bar> / 2 ^ 53 + eta"
    by (rule near)
  have "\<bar>sin q\<bar> / 2 ^ 53 \<le> 1 / 2 ^ 53"
    using abs_sin_le_one [of q] by (rule divide_right_mono) simp
  with s(2) eta have s': "\<bar>s - sin q\<bar> \<le> 1 / 2 ^ 52" by linarith
  have "\<bar>cos q\<bar> / 2 ^ 53 \<le> 1 / 2 ^ 53"
    using abs_cos_le_one [of q] by (rule divide_right_mono) simp
  with c(2) eta have c': "\<bar>c - cos q\<bar> \<le> 1 / 2 ^ 52" by linarith
  have "Math_sin (degToRad (Fin a)) = Fin s" "Math_cos (degToRad (Fin a)) = Fin c"
    by (simp_all add: rad s(1) c(1))
  then show thesis
    using s' c' by (rule that)
qed

text \<open>
  One coordinate of the destination, \<^verbatim>\<open>x + sinAngle * distance\<close>: two roundings, after the
  one in \<open>sinAngle\<close>.
\<close>

lemma advance:
  assumes s: "\<bar>s - se\<bar> \<le> 1 / 2 ^ 52" and se: "\<bar>se\<bar> \<le> 1"
    and x: "\<bar>x\<bar> \<le> 2 ^ 1010" and d: "\<bar>d\<bar> \<le> 2 ^ 1010"
  obtains x1 where "Fin x + Fin s * Fin d = Fin x1"
    and "\<bar>x1 - (x + se * d)\<bar> \<le> (\<bar>x\<bar> + 7 * \<bar>d\<bar>) / 2 ^ 53 + 3 / 2 ^ 1075"
proof -
  define eta :: real where "eta = 1 / 2 ^ 1075"
  define B :: real where "B = 2 ^ 1010"
  define M :: real where "M = 2 ^ 1023"
  define X where "X = \<bar>x\<bar> / 2 ^ 53"
  define D where "D = \<bar>d\<bar> / 2 ^ 53"
  define P where "P = s * d"
  define Q where "Q = (s - se) * d"
  have eta: "0 \<le> eta" "eta \<le> 1" "eta / 2 ^ 53 \<le> eta"
    by (simp_all add: eta_def)
  have BM: "5 * B + 1 < M"
    by (simp add: B_def M_def)
  have D: "0 \<le> D" "2 * D \<le> \<bar>d\<bar>"
    by (simp_all add: D_def)
  have X: "0 \<le> X"
    by (simp add: X_def)
  note near = round64_near [folded eta_def M_def]
  have sed: "se * d = P - Q"
    by (simp add: P_def Q_def algebra_simps)
  have "(1::real) / 2 ^ 52 \<le> 1" by simp
  with s se have "\<bar>s\<bar> \<le> 2" by linarith
  then have "\<bar>s\<bar> * \<bar>d\<bar> \<le> 2 * \<bar>d\<bar>"
    by (intro mult_right_mono) simp_all
  then have P: "\<bar>P\<bar> \<le> 2 * \<bar>d\<bar>"
    by (simp add: P_def abs_mult)
  have "\<bar>s - se\<bar> * \<bar>d\<bar> \<le> 1 / 2 ^ 52 * \<bar>d\<bar>"
    using s by (intro mult_right_mono) simp_all
  then have Q: "\<bar>Q\<bar> \<le> 2 * D"
    by (simp add: Q_def D_def abs_mult)
  have "\<bar>P\<bar> < M"
    using P d BM unfolding B_def [symmetric] by linarith
  then obtain sd where sd: "round64 P = Fin sd" "\<bar>sd - P\<bar> \<le> \<bar>P\<bar> / 2 ^ 53 + eta"
    by (rule near)
  have "\<bar>P\<bar> / 2 ^ 53 \<le> 2 * \<bar>d\<bar> / 2 ^ 53"
    using P by (rule divide_right_mono) simp
  then have PD: "\<bar>P\<bar> / 2 ^ 53 \<le> 2 * D"
    by (simp add: D_def)
  have sdb: "\<bar>sd\<bar> \<le> 3 * \<bar>d\<bar> + eta"
    using sd(2) P PD D by linarith
  have xsd: "\<bar>x + sd\<bar> \<le> \<bar>x\<bar> + 3 * \<bar>d\<bar> + eta"
    using sdb by linarith
  then have "\<bar>x + sd\<bar> < M"
    using x d BM eta unfolding B_def [symmetric] by linarith
  then obtain x1 where x1: "round64 (x + sd) = Fin x1"
    "\<bar>x1 - (x + sd)\<bar> \<le> \<bar>x + sd\<bar> / 2 ^ 53 + eta"
    by (rule near)
  have eq: "Fin x + Fin s * Fin d = Fin x1"
    using sd(1) x1(1) by (simp add: P_def)
  have "\<bar>x + sd\<bar> / 2 ^ 53 \<le> (\<bar>x\<bar> + 3 * \<bar>d\<bar> + eta) / 2 ^ 53"
    using xsd by (rule divide_right_mono) simp
  also have "\<dots> = X + 3 * D + eta / 2 ^ 53"
    by (simp add: X_def D_def add_divide_distrib)
  finally have "\<bar>x + sd\<bar> / 2 ^ 53 \<le> X + 3 * D + eta / 2 ^ 53" .
  with x1(2) eta have e2: "\<bar>x1 - (x + sd)\<bar> \<le> X + 3 * D + 2 * eta"
    by linarith
  from sd(2) PD have e1: "\<bar>sd - P\<bar> \<le> 2 * D + eta"
    by linarith
  have "\<bar>x1 - (x + se * d)\<bar> \<le> \<bar>x1 - (x + sd)\<bar> + \<bar>sd - P\<bar> + \<bar>Q\<bar>"
    unfolding sed by linarith
  with e1 e2 Q have "\<bar>x1 - (x + se * d)\<bar> \<le> X + 7 * D + 3 * eta"
    by linarith
  also have "X + 7 * D + 3 * eta = (\<bar>x\<bar> + 7 * \<bar>d\<bar>) / 2 ^ 53 + 3 / 2 ^ 1075"
    by (simp add: X_def D_def eta_def add_divide_distrib)
  finally have "\<bar>x1 - (x + se * d)\<bar> \<le> (\<bar>x\<bar> + 7 * \<bar>d\<bar>) / 2 ^ 53 + 3 / 2 ^ 1075" .
  with eq show thesis
    by (rule that)
qed

text \<open>There and back again, in one coordinate.\<close>

lemma roundtrip_coord:
  assumes s: "\<bar>s - se\<bar> \<le> 1 / 2 ^ 52" and se: "\<bar>se\<bar> \<le> 1"
    and x: "\<bar>x\<bar> \<le> 2 ^ 1000" and d: "\<bar>d\<bar> \<le> 2 ^ 1000"
  obtains x1 x2 where "Fin x + Fin s * Fin d = Fin x1" and "Fin x1 + Fin s * Fin (- d) = Fin x2"
    and "\<bar>x2 - x\<bar> \<le> (\<bar>x\<bar> + \<bar>d\<bar>) / 2 ^ 49 + 1 / 2 ^ 1072"
proof -
  define eta :: real where "eta = 1 / 2 ^ 1075"
  define B :: real where "B = 2 ^ 1000"
  define B' :: real where "B' = 2 ^ 1010"
  define X where "X = \<bar>x\<bar> / 2 ^ 53"
  define D where "D = \<bar>d\<bar> / 2 ^ 53"
  have eta: "0 \<le> eta" "eta \<le> 1" "3 * (eta / 2 ^ 53) \<le> eta"
    by (simp_all add: eta_def)
  have BB: "4 * B + 4 \<le> B'" "0 \<le> B"
    by (simp_all add: B_def B'_def)
  have D: "0 \<le> D" "8 * D \<le> \<bar>d\<bar>"
    by (simp_all add: D_def)
  have X: "0 \<le> X" "8 * X \<le> \<bar>x\<bar>"
    by (simp_all add: X_def)
  have three: "3 / 2 ^ 1075 = 3 * eta"
    by (simp add: eta_def)
  have x': "\<bar>x\<bar> \<le> 2 ^ 1010" and d': "\<bar>d\<bar> \<le> 2 ^ 1010" and nd': "\<bar>- d\<bar> \<le> 2 ^ 1010"
    using x d BB unfolding B_def [symmetric] B'_def [symmetric] by simp_all
  have "\<bar>se\<bar> * \<bar>d\<bar> \<le> 1 * \<bar>d\<bar>"
    using se by (intro mult_right_mono) simp_all
  then have sed: "\<bar>se * d\<bar> \<le> \<bar>d\<bar>"
    by (simp add: abs_mult)
  from advance [OF s se x' d'] obtain x1 where
    x1: "Fin x + Fin s * Fin d = Fin x1"
    "\<bar>x1 - (x + se * d)\<bar> \<le> (\<bar>x\<bar> + 7 * \<bar>d\<bar>) / 2 ^ 53 + 3 / 2 ^ 1075"
    by blast
  have "(\<bar>x\<bar> + 7 * \<bar>d\<bar>) / 2 ^ 53 = X + 7 * D"
    by (simp add: X_def D_def add_divide_distrib)
  with x1(2) three have e1: "\<bar>x1 - (x + se * d)\<bar> \<le> X + 7 * D + 3 * eta"
    by linarith
  have x1b: "\<bar>x1\<bar> \<le> 2 * \<bar>x\<bar> + 2 * \<bar>d\<bar> + 3 * eta"
    using e1 sed X D by linarith
  then have "\<bar>x1\<bar> \<le> 2 ^ 1010"
    using x d BB eta unfolding B_def [symmetric] B'_def [symmetric] by linarith
  from advance [OF s se this nd'] obtain x2 where
    x2: "Fin x1 + Fin s * Fin (- d) = Fin x2"
    "\<bar>x2 - (x1 + se * - d)\<bar> \<le> (\<bar>x1\<bar> + 7 * \<bar>- d\<bar>) / 2 ^ 53 + 3 / 2 ^ 1075"
    by blast
  have "(\<bar>x1\<bar> + 7 * \<bar>- d\<bar>) / 2 ^ 53 \<le> (2 * \<bar>x\<bar> + 2 * \<bar>d\<bar> + 3 * eta + 7 * \<bar>d\<bar>) / 2 ^ 53"
    using x1b by (intro divide_right_mono) simp_all
  also have "\<dots> = 2 * X + 9 * D + 3 * (eta / 2 ^ 53)"
    by (simp add: X_def D_def add_divide_distrib)
  finally have "(\<bar>x1\<bar> + 7 * \<bar>- d\<bar>) / 2 ^ 53 \<le> 2 * X + 9 * D + eta"
    using eta by linarith
  with x2(2) three have e2: "\<bar>x2 - (x1 + se * - d)\<bar> \<le> 2 * X + 9 * D + 4 * eta"
    by linarith
  have "x2 - x = (x2 - (x1 + se * - d)) + (x1 - (x + se * d))"
    by simp
  then have "\<bar>x2 - x\<bar> \<le> \<bar>x2 - (x1 + se * - d)\<bar> + \<bar>x1 - (x + se * d)\<bar>"
    by linarith
  with e1 e2 X D eta have "\<bar>x2 - x\<bar> \<le> 16 * X + 16 * D + 8 * eta"
    by linarith
  also have "16 * X + 16 * D + 8 * eta = (\<bar>x\<bar> + \<bar>d\<bar>) / 2 ^ 49 + 1 / 2 ^ 1072"
    by (simp add: X_def D_def eta_def add_divide_distrib)
  finally have "\<bar>x2 - x\<bar> \<le> (\<bar>x\<bar> + \<bar>d\<bar>) / 2 ^ 49 + 1 / 2 ^ 1072" .
  with x1(1) x2(1) show thesis
    by (rule that)
qed

text \<open>
  C9, as the code has it: with wrapping disabled, in immediate mode and with nothing in
  between, \<^verbatim>\<open>forward(d)\<close> followed by \<^verbatim>\<open>backward(d)\<close> both return; the first moves the
  turtle to \<open>(x + sinAngle * d, y + cosAngle * d)\<close>, computed in doubles; together they leave
  the heading unchanged and bring the turtle back to within
  \<open>(|x| + |d|) * 2 ^ -49 + 2 ^ -1072\<close> of the coordinate it started from, for every
  position, heading and distance of magnitude at most \<open>2 ^ 1000\<close>. The position is not the same exactly: each of the two moves rounds
  twice, and the coordinate reached in between can absorb the low bits of the start.
\<close>

theorem forward_backward_roundtrip:
  assumes "wrap t = False" and "isInStep t" and "position t = (Fin x, Fin y)" and "angle t = Fin a"
    and "\<bar>x\<bar> \<le> 2 ^ 1000" and "\<bar>y\<bar> \<le> 2 ^ 1000" and "\<bar>d\<bar> \<le> 2 ^ 1000" and "\<bar>a\<bar> \<le> 2 ^ 1000"
  shows "\<exists>t1 t2 x2 y2. forward (Fin d) t = Some t1 \<and> backward (Fin d) t1 = Some t2 \<and>
           position t1 =
             (Fin x + Math_sin (degToRad (angle t)) * Fin d,
              Fin y + Math_cos (degToRad (angle t)) * Fin d) \<and>
           angle t2 = angle t \<and> position t2 = (Fin x2, Fin y2) \<and>
           \<bar>x2 - x\<bar> \<le> (\<bar>x\<bar> + \<bar>d\<bar>) / 2 ^ 49 + 1 / 2 ^ 1072 \<and>
           \<bar>y2 - y\<bar> \<le> (\<bar>y\<bar> + \<bar>d\<bar>) / 2 ^ 49 + 1 / 2 ^ 1072"
proof -
  from direction_finite [OF assms(8)] obtain q s c where
    dir: "Math_sin (degToRad (Fin a)) = Fin s" "Math_cos (degToRad (Fin a)) = Fin c"
    "\<bar>s - sin q\<bar> \<le> 1 / 2 ^ 52" "\<bar>c - cos q\<bar> \<le> 1 / 2 ^ 52"
    by blast
  from roundtrip_coord [OF dir(3) abs_sin_le_one assms(5,7)] obtain x1 x2 where
    xs: "Fin x + Fin s * Fin d = Fin x1" "Fin x1 + Fin s * Fin (- d) = Fin x2"
    "\<bar>x2 - x\<bar> \<le> (\<bar>x\<bar> + \<bar>d\<bar>) / 2 ^ 49 + 1 / 2 ^ 1072"
    by blast
  from roundtrip_coord [OF dir(4) abs_cos_le_one assms(6,7)] obtain y1 y2 where
    ys: "Fin y + Fin c * Fin d = Fin y1" "Fin y1 + Fin c * Fin (- d) = Fin y2"
    "\<bar>y2 - y\<bar> \<le> (\<bar>y\<bar> + \<bar>d\<bar>) / 2 ^ 49 + 1 / 2 ^ 1072"
    by blast
  from doStraightLine_nowrap [OF assms(1,2), of "Fin d"] obtain t1 where
    t1: "doStraightLine (Fin d) t = Some t1" "position t1 = (Fin x1, Fin y1)"
    "angle t1 = angle t" "wrap t1 = False" "isInStep t1"
    using assms(1,3,4) dir(1,2) xs(1) ys(1) by auto
  from doStraightLine_nowrap [OF t1(4,5), of "Fin (- d)"] obtain t2 where
    t2: "doStraightLine (Fin (- d)) t1 = Some t2" "position t2 = (Fin x2, Fin y2)"
    "angle t2 = angle t"
    using t1(2,3) assms(4) dir(1,2) xs(2) ys(2) by auto
  have "forward (Fin d) t = Some t1"
    using assms(2) t1(1) by (simp add: forward_def forward'_def)
  moreover have "backward (Fin d) t1 = Some t2"
    using t1(5) t2(1) by (simp add: backward_def backward'_def)
  moreover have "position t1 =
      (Fin x + Math_sin (degToRad (angle t)) * Fin d,
       Fin y + Math_cos (degToRad (angle t)) * Fin d)"
    using t1(2) xs(1) ys(1) dir(1,2) assms(4) by simp
  ultimately show ?thesis
    using t2(2,3) xs(3) ys(3) by blast
qed

lemma turtleNoWrap_eq:
  "turtleNoWrap =
     \<lparr>ctx = \<lparr>canvas_width = Fin 200, canvas_height = Fin 200,
              lineCap = CapRound, strokes = []\<rparr>,
      hidden = False, wrap = False, isPenDown = True, stepByStep = False, step = False,
      steps = [], speed = None, interval = None,
      color = RGBA (Fin 255) (Fin 0) (Fin 255) (Fin 1),
      defaultColor = RGBA (Fin 255) (Fin 0) (Fin 255) (Fin 1),
      width = Fin 1, turtleSizeModifier = Fin 1, position = (Fin 0, Fin 0),
      angle = Fin 0, shape = [], timers = [], timerCount = 0\<rparr>"
  by (simp add: turtleNoWrap_def newTurtle_def noOptions_def canvas200_def newColor_def)

text \<open>The round trip of 30 on the turtle constructed with \<^verbatim>\<open>disableWrapping\<close>.\<close>

theorem forward_backward_roundtrip_witness:
  "wrap turtleNoWrap = False \<and> stepByStep turtleNoWrap = False \<and>
   position turtleNoWrap = (Fin 0, Fin 0) \<and> angle turtleNoWrap = Fin 0 \<and>
   (\<exists>t1 t2 x2 y2. forward (Fin 30) turtleNoWrap = Some t1 \<and> backward (Fin 30) t1 = Some t2 \<and>
      position t1 =
        (Fin 0 + Math_sin (degToRad (angle turtleNoWrap)) * Fin 30,
         Fin 0 + Math_cos (degToRad (angle turtleNoWrap)) * Fin 30) \<and>
      angle t2 = angle turtleNoWrap \<and> position t2 = (Fin x2, Fin y2) \<and>
      \<bar>x2 - 0\<bar> \<le> (\<bar>0\<bar> + \<bar>30\<bar>) / 2 ^ 49 + 1 / 2 ^ 1072 \<and>
      \<bar>y2 - 0\<bar> \<le> (\<bar>0\<bar> + \<bar>30\<bar>) / 2 ^ 49 + 1 / 2 ^ 1072)"
proof -
  have a: "wrap turtleNoWrap = False" "isInStep turtleNoWrap"
    "position turtleNoWrap = (Fin 0, Fin 0)" "angle turtleNoWrap = Fin 0"
    by (simp_all add: turtleNoWrap_eq isInStep_def)
  have b: "\<bar>0 :: real\<bar> \<le> 2 ^ 1000" "\<bar>30 :: real\<bar> \<le> 2 ^ 1000"
    by simp_all
  have c: "stepByStep turtleNoWrap = False"
    by (simp add: turtleNoWrap_eq)
  show ?thesis
    using a(1,3,4) c forward_backward_roundtrip [OF a b(1) b(1) b(2) b(1)] by blast
qed

lemma roundtrip_at:
  assumes b: "round64 b = Fin b" "round64 (- b) = Fin (- b)" "round64 (b + b) = PInf" "0 < b"
  shows "map_option position (forward (Fin b) (goto (Fin 0) (Fin b) turtleNoWrap))
       = Some (Fin 0, PInf) \<and>
     map_option position
       (Option.bind (forward (Fin b) (goto (Fin 0) (Fin b) turtleNoWrap)) (backward (Fin b)))
       = Some (Fin 0, PInf)"
  using b by (simp add: turtleNoWrap_eq method_defs line_defs straightLineLoop.simps Let_def)

text \<open>
  C9 as stated holds for every start position and distance. Doubles are bounded: from
  \<open>(0, 2 ^ 1023)\<close> with heading 0, \<^verbatim>\<open>forward(2 ^ 1023)\<close> computes \<open>2 ^ 1023 + 2 ^ 1023\<close>,
  which overflows, and leaves the turtle at \<open>(0, Infinity)\<close>; \<^verbatim>\<open>backward(2 ^ 1023)\<close> then
  leaves it there, and not at \<open>(0, 2 ^ 1023)\<close>.
\<close>

theorem roundtrip_overflows:
  "wrap turtleNoWrap = False \<and> stepByStep turtleNoWrap = False \<and>
   position (goto (Fin 0) (Fin (2 ^ 1023)) turtleNoWrap) = (Fin 0, Fin (2 ^ 1023)) \<and>
   map_option position (forward (Fin (2 ^ 1023)) (goto (Fin 0) (Fin (2 ^ 1023)) turtleNoWrap))
       = Some (Fin 0, PInf) \<and>
   map_option position
     (Option.bind (forward (Fin (2 ^ 1023)) (goto (Fin 0) (Fin (2 ^ 1023)) turtleNoWrap))
        (backward (Fin (2 ^ 1023))))
       = Some (Fin 0, PInf)"
proof -
  have "wrap turtleNoWrap = False" "stepByStep turtleNoWrap = False"
    "position (goto (Fin 0) (Fin (2 ^ 1023)) turtleNoWrap) = (Fin 0, Fin (2 ^ 1023))"
    by (simp_all add: turtleNoWrap_eq method_defs)
  moreover have "(0::real) < 2 ^ 1023"
    by simp
  ultimately show ?thesis
    using roundtrip_at [OF round64_2_1023 round64_neg_2_1023 round64_2_1024] by blast
qed

subsection \<open>The segments of a line\<close>












subsection \<open>A heading parallel to an axis\<close>

text \<open>
  C8: when \<open>sin \<theta>\<close> or \<open>cos \<theta>\<close> is zero the edge in that axis is treated as unreachable,
  its distance as infinite, by a guard and without dividing by zero, for every start
  position, also on a boundary. The code has no guard and divides. With heading 0 the
  distance to the edge in \<open>x\<close> is \<open>(w + x) / 0\<close>: infinite for a turtle at \<open>x = 100\<close> or
  \<open>x = -99\<close>, but \<open>0 / 0\<close>, which is NaN, for the turtle on the left edge, at \<open>x = -100\<close>.
  Both comparisons with NaN fail, so neither branch that wraps is taken: from
  \<open>(-100, 0)\<close> \<^verbatim>\<open>forward(150)\<close> leaves the turtle at \<open>(-100, 150)\<close>, outside the canvas, where
  from \<open>(100, 0)\<close> and from \<open>(-99, 0)\<close> the same call wraps to \<open>y = -50\<close>.
\<close>

theorem boundary_start_suppresses_wrap:
  "edgeDistance (Fin (- 100)) (Fin (- 100)) (Fin 100) (Fin 0) = NaN \<and>
   edgeDistance (Fin 100) (Fin 100) (Fin 100) (Fin 0) = PInf \<and>
   edgeDistance (Fin (- 99)) (Fin (- 99)) (Fin 100) (Fin 0) = PInf \<and>
   map_option position (forward (Fin 150) (goto (Fin (- 100)) (Fin 0) turtle0))
     = Some (Fin (- 100), Fin 150) \<and>
   map_option position (forward (Fin 150) (goto (Fin 100) (Fin 0) turtle0))
     = Some (Fin 100, Fin (- 50)) \<and>
   map_option position (forward (Fin 150) (goto (Fin (- 99)) (Fin 0) turtle0))
     = Some (Fin (- 99), Fin (- 50))"
  by (simp add: edgeDistance_def turtle0_eq method_defs line_defs straightLineLoop.simps Let_def)

subsection \<open>Termination\<close>

text \<open>
  On the canvas of half-extent 100, with heading 0, the state of the loop with
  \<open>y = -100\<close>, \<open>newY = 10 ^ 19\<close> and the distance \<open>10 ^ 19\<close> is repeated by the iteration:
  the edge is 200 away, and \<open>10 ^ 19 - 200\<close> rounds to \<open>10 ^ 19\<close>. No run from that state
  returns.
\<close>

lemma loop_stuck:
  "straightLineLoop True (Fin 100) (Fin 100) (Fin 0) (Fin 1) (Fin 0) (Fin (- 100))
     (Fin 0) (Fin 10000000000000000000) (Fin 10000000000000000000) path = None"
proof (rule ccontr)
  assume "straightLineLoop True (Fin 100) (Fin 100) (Fin 0) (Fin 1) (Fin 0) (Fin (- 100))
     (Fin 0) (Fin 10000000000000000000) (Fin 10000000000000000000) path \<noteq> None"
  then obtain r where "straightLineLoop True (Fin 100) (Fin 100) (Fin 0) (Fin 1) (Fin 0)
     (Fin (- 100)) (Fin 0) (Fin 10000000000000000000) (Fin 10000000000000000000) path = Some r"
    by blast
  then have "\<not> (True \<and> Fin 100 = Fin 100 \<and> Fin 100 = Fin 100 \<and> Fin 0 = Fin 0 \<and> Fin 1 = Fin 1 \<and>
      Fin 0 = Fin 0 \<and> Fin (- 100) = Fin (- 100) \<and> Fin 0 = Fin 0 \<and>
      Fin 10000000000000000000 = Fin 10000000000000000000 \<and>
      Fin 10000000000000000000 = Fin 10000000000000000000)"
  proof (induction rule: loop_induct
      [where P = "\<lambda>wr w h s c x y nx ny dst path r.
        \<not> (wr \<and> w = Fin 100 \<and> h = Fin 100 \<and> s = Fin 0 \<and> c = Fin 1 \<and> x = Fin 0 \<and>
           y = Fin (- 100) \<and> nx = Fin 0 \<and> ny = Fin 10000000000000000000 \<and>
           dst = Fin 10000000000000000000)"])
    case (exit wr w h s c x y nx ny dst path)
    then show ?case by auto
  next
    case (crossX wr w h s c x y nx ny dst path r)
    then show ?case by (auto simp: edgeDistance_def)
  next
    case (crossY wr w h s c x y nx ny dst path r)
    then show ?case by (auto simp: edgeDistance_def)
  next
    case (last wr w h s c x y nx ny dst path r)
    then show ?case by (auto simp: edgeDistance_def)
  qed
  then show False by simp
qed

text \<open>
  C10: the loop ends on every finite input. On the fresh turtle, \<^verbatim>\<open>forward(1e19)\<close> does
  not return: the first iteration wraps to \<open>y = -100\<close>, taking 100 off the distance and
  200 off \<open>newY\<close>, both of which round back to \<open>10 ^ 19\<close>, and every later iteration
  finds the same state.
\<close>

theorem forward_never_returns:
  "stepByStep turtle0 = False \<and> wrap turtle0 = True \<and>
   position turtle0 = (Fin 0, Fin 0) \<and> angle turtle0 = Fin 0 \<and>
   canvas_width (ctx turtle0) = Fin 200 \<and> canvas_height (ctx turtle0) = Fin 200 \<and>
   forward (Fin 10000000000000000000) turtle0 = None"
  by (simp add: turtle0_eq method_defs line_defs Let_def edgeDistance_def
      loop_crossY [of _ True] loop_stuck)

subsection \<open>Reset\<close>

lemma reset'_fields: "resetFields t (reset' t)"
  by (simp add: resetFields_def method_defs Let_def)

lemma reset'_steps: "steps (reset' t) = steps t"
  by (simp add: method_defs Let_def)

lemma reset'_step: "step (reset' t) = step t"
  by (simp add: method_defs Let_def)

text \<open>
  C5, as the code has it: \<^verbatim>\<open>reset\<close> in immediate mode leaves \<open>hidden = false\<close>,
  \<open>penDown = true\<close>, \<open>stepByStep = false\<close>, width 1, the default colour, angle 0, position
  \<open>(0, 0)\<close> and a cleared canvas, and leaves \<open>wrap\<close> as it was. Its sub-steps all run at
  once: nothing is added to the queue, whether \<^verbatim>\<open>reset\<close> is called in immediate mode
  or replayed from the queue.
\<close>

theorem reset_reinitialises:
  "(isInStep t \<longrightarrow> resetFields t (reset t) \<and> steps (reset t) = steps t) \<and>
   (steps t = Reset # rest \<longrightarrow>
      (\<exists>t'. nextStep t = Some t' \<and> resetFields t t' \<and> steps t' = rest))"
proof -
  have queued: "\<exists>t'. nextStep t = Some t' \<and> resetFields t t' \<and> steps t' = rest"
    if q: "steps t = Reset # rest"
  proof -
    let ?u = "t\<lparr>steps := rest, step := True\<rparr>"
    have run: "nextStep t = Some ((reset' ?u)\<lparr>step := False\<rparr>)"
      using q by (simp add: nextStep_def reset_def isInStep_def)
    have "resetFields ?u (reset' ?u)"
      by (rule reset'_fields)
    then have "resetFields t ((reset' ?u)\<lparr>step := False\<rparr>)"
      by (simp add: resetFields_def)
    moreover have "steps ((reset' ?u)\<lparr>step := False\<rparr>) = rest"
      by (simp add: reset'_steps)
    ultimately show ?thesis
      using run by blast
  qed
  show ?thesis
    using queued by (simp add: reset_def reset'_fields reset'_steps)
qed

theorem reset_reinitialises_witness:
  "isInStep (left (Fin 30) (penUp turtle0)) \<and>
   resetFields (left (Fin 30) (penUp turtle0)) (reset (left (Fin 30) (penUp turtle0))) \<and>
   steps (reset (setSpeed (Fin 50) turtle0)) = Reset # [] \<and>
   (\<exists>t'. nextStep (reset (setSpeed (Fin 50) turtle0)) = Some t' \<and>
      resetFields (reset (setSpeed (Fin 50) turtle0)) t' \<and> steps t' = [])"
proof -
  have a: "isInStep (left (Fin 30) (penUp turtle0))"
    by (simp add: turtle0_eq method_defs)
  have b: "steps (reset (setSpeed (Fin 50) turtle0)) = Reset # []"
    by (simp add: turtle0_eq method_defs)
  show ?thesis
    using a b reset_reinitialises [of "left (Fin 30) (penUp turtle0)" "[]"]
      reset_reinitialises [of "reset (setSpeed (Fin 50) turtle0)" "[]"]
    by blast
qed

text \<open>
  C5 as stated also asks for \<open>wrap = true\<close> after \<^verbatim>\<open>reset\<close>. A turtle constructed with
  \<^verbatim>\<open>disableWrapping\<close> does not wrap, and \<^verbatim>\<open>reset\<close> does not change that.
\<close>

theorem reset_keeps_wrap_disabled:
  "isInStep (newTurtle [] canvas200 (noOptions\<lparr>disableWrapping := Some True\<rparr>)) \<and>
   wrap (reset (newTurtle [] canvas200 (noOptions\<lparr>disableWrapping := Some True\<rparr>))) = False"
  by (simp add: newTurtle_def noOptions_def canvas200_def newColor_def method_defs Let_def)

subsection \<open>The timer\<close>

lemma setSpeed'_timers:
  "oneTimer t \<Longrightarrow>
   timers (setSpeed' ms t) = [Suc (timerCount t)] \<and>
   interval (setSpeed' ms t) = Some (Suc (timerCount t)) \<and>
   timerCount (setSpeed' ms t) = Suc (timerCount t)"
  by (auto simp: oneTimer_def setSpeed'_def setInterval_def clearInterval_def Let_def
      split: option.splits)

lemma setSpeed'_oneTimer: "oneTimer t \<Longrightarrow> oneTimer (setSpeed' ms t)"
  using setSpeed'_timers [of t ms] by (simp add: oneTimer_def)

lemma setSpeed'_steps: "steps (setSpeed' ms t) = steps t \<and> step (setSpeed' ms t) = step t"
  by (simp add: setSpeed'_def setInterval_def clearInterval_def Let_def split: option.splits)

lemma doStraightLine_sameTimers: "doStraightLine d t = Some t' \<Longrightarrow> sameTimers t t'"
  by (auto simp: doStraightLine_def Let_def sameTimers_def method_defs
      split: option.splits prod.splits if_splits)

lemma invoke_sameTimers:
  "invoke c t = Some t' \<Longrightarrow> (\<And>ms. c \<noteq> CallSetSpeed ms) \<Longrightarrow> sameTimers t t'"
  apply (cases c)
  apply (auto simp: sameTimers_def method_defs Let_def forward_def forward'_def backward_def backward'_def
      dest: doStraightLine_sameTimers split: if_splits)
  done

lemma sameTimers_oneTimer: "sameTimers t t' \<Longrightarrow> oneTimer t \<Longrightarrow> oneTimer t'"
  by (simp add: sameTimers_def oneTimer_def)

lemma setSpeed_oneTimer: "oneTimer t \<Longrightarrow> oneTimer (setSpeed ms t)"
  by (simp add: setSpeed_def setSpeed'_oneTimer) (simp add: oneTimer_def)

lemma invoke_oneTimer: "invoke c t = Some t' \<Longrightarrow> oneTimer t \<Longrightarrow> oneTimer t'"
proof (cases "\<exists>ms. c = CallSetSpeed ms")
  case True
  then show "invoke c t = Some t' \<Longrightarrow> oneTimer t \<Longrightarrow> oneTimer t'"
    by (auto simp: setSpeed_oneTimer)
next
  case False
  then show "invoke c t = Some t' \<Longrightarrow> oneTimer t \<Longrightarrow> oneTimer t'"
    using invoke_sameTimers [of c t t'] sameTimers_oneTimer by blast
qed

text \<open>A replayed step runs at once: it pushes nothing and leaves the flag \<open>step\<close> set.\<close>

lemma doStraightLine_steps:
  "step t \<Longrightarrow> doStraightLine d t = Some t' \<Longrightarrow> steps t' = steps t \<and> step t'"
  by (auto simp: doStraightLine_def Let_def method_defs
      split: option.splits prod.splits if_splits)

lemma doStep_steps: "step t \<Longrightarrow> doStep s t = Some t' \<Longrightarrow> steps t' = steps t"
  by (cases s)
    (auto simp: method_defs Let_def forward_def forward'_def
      dest: doStraightLine_steps split: option.splits)

lemma doStep_sameTimers:
  "step t \<Longrightarrow> doStep s t = Some t' \<Longrightarrow> (\<And>ms. s \<noteq> SetSpeed ms) \<Longrightarrow> sameTimers t t'"
  by (cases s)
    (auto simp: sameTimers_def method_defs Let_def forward_def forward'_def
      dest: doStraightLine_sameTimers)

lemma doStep_oneTimer: "step t \<Longrightarrow> doStep s t = Some t' \<Longrightarrow> oneTimer t \<Longrightarrow> oneTimer t'"
proof (cases "\<exists>ms. s = SetSpeed ms")
  case True
  then show "step t \<Longrightarrow> doStep s t = Some t' \<Longrightarrow> oneTimer t \<Longrightarrow> oneTimer t'"
    by (auto simp: setSpeed_oneTimer)
next
  case False
  then show "step t \<Longrightarrow> doStep s t = Some t' \<Longrightarrow> oneTimer t \<Longrightarrow> oneTimer t'"
    using doStep_sameTimers [of t s t'] sameTimers_oneTimer by blast
qed

lemma nextStep_steps: "nextStep t = Some t' \<Longrightarrow> steps t' = tl (steps t)"
  by (auto simp: nextStep_def Let_def clearInterval_def
      split: list.splits option.splits dest!: doStep_steps [rotated])

lemma nextSteps_steps: "nextSteps n t = Some t' \<Longrightarrow> steps t' = drop n (steps t)"
proof (induction n arbitrary: t)
  case 0
  then show ?case by simp
next
  case (Suc n)
  from Suc.prems obtain u where u: "nextStep t = Some u" and rest: "nextSteps n u = Some t'"
    by (auto split: option.splits)
  have "steps t' = drop n (steps u)"
    using Suc.IH rest by simp
  also have "steps u = tl (steps t)"
    using u by (rule nextStep_steps)
  finally show ?case
    by (simp add: drop_Suc)
qed

text \<open>Draining leaves the queue empty.\<close>

lemma drain_empties: "drain t = Some t' \<Longrightarrow> steps t' = []"
  by (simp add: drain_def nextSteps_steps)

lemma nextStep_oneTimer: "nextStep t = Some t' \<Longrightarrow> oneTimer t \<Longrightarrow> oneTimer t'"
proof (cases "steps t")
  case Nil
  then show "nextStep t = Some t' \<Longrightarrow> oneTimer t \<Longrightarrow> oneTimer t'"
    by (auto simp: nextStep_def oneTimer_def clearInterval_def split: option.splits)
next
  case (Cons s rest)
  assume run: "nextStep t = Some t'" and inv: "oneTimer t"
  let ?u = "t\<lparr>steps := rest, step := True\<rparr>"
  from run Cons obtain u' where u': "doStep s ?u = Some u'" and t': "t' = u'\<lparr>step := False\<rparr>"
    by (auto simp: nextStep_def Let_def split: option.splits)
  have "oneTimer ?u"
    using inv by (simp add: oneTimer_def)
  then have "oneTimer u'"
    using doStep_oneTimer [of ?u s u'] u' by simp
  then show "oneTimer t'"
    using t' by (simp add: oneTimer_def)
qed

lemma Let_preserve: "P a \<Longrightarrow> (\<And>t. P t \<Longrightarrow> P (f t)) \<Longrightarrow> P (Let a f)"
  by simp

lemma newTurtle_timers:
  "timers (newTurtle shp cx opts) = [] \<and> interval (newTurtle shp cx opts) = None"
  unfolding newTurtle_def
  by (intro Let_preserve [where P = "\<lambda>t. timers t = [] \<and> interval t = None"])
    (simp_all split: option.splits)

lemma newTurtle_oneTimer: "oneTimer (newTurtle shp cx opts)"
  by (simp add: oneTimer_def newTurtle_timers)

lemma reachable_oneTimer: "reachable t \<Longrightarrow> oneTimer t"
proof (induction rule: reachable.induct)
  case (reachable_new shp cx opts)
  show ?case by (rule newTurtle_oneTimer)
next
  case (reachable_invoke t c t')
  then show ?case by (blast intro: invoke_oneTimer)
next
  case (reachable_tick t i t')
  then show ?case
    by (auto simp: tick_def split: if_splits intro: nextStep_oneTimer)
qed

text \<open>
  C6, as the code has it. On every reachable turtle at most one interval is armed, the
  one recorded in the field \<open>interval\<close>. A \<^verbatim>\<open>setSpeed(ms)\<close> that runs at once stops that
  interval and arms a new one, whatever the sign of \<open>ms\<close>; no other call arms or stops
  an interval. A tick replays at most one step, and a tick that finds the queue empty
  releases the interval, after which none is armed.
\<close>

theorem timer_discipline:
  assumes "reachable t"
  shows "length (timers t) \<le> 1 \<and> set (timers t) = set_option (interval t) \<and>
    (isInStep t \<longrightarrow>
       timers (setSpeed ms t) = [Suc (timerCount t)] \<and>
       interval (setSpeed ms t) = Some (Suc (timerCount t)) \<and>
       Suc (timerCount t) \<notin> set (timers t)) \<and>
    ((\<forall>ms. c \<noteq> CallSetSpeed ms) \<and> invoke c t = Some t' \<longrightarrow> timers t' = timers t) \<and>
    (tick i t = Some t'' \<longrightarrow> steps t'' = steps t \<or> steps t'' = tl (steps t)) \<and>
    (i \<in> set (timers t) \<and> steps t = [] \<longrightarrow>
       (\<exists>u. tick i t = Some u \<and> timers u = [] \<and> interval u = None))"
proof -
  have inv: "oneTimer t"
    using assms by (rule reachable_oneTimer)
  have one: "length (timers t) \<le> 1 \<and> set (timers t) = set_option (interval t)"
    using inv by (auto simp: oneTimer_def split: option.splits)
  have fresh: "Suc (timerCount t) \<notin> set (timers t)"
    using inv by (fastforce simp: oneTimer_def)
  have arm: "timers (setSpeed ms t) = [Suc (timerCount t)] \<and>
       interval (setSpeed ms t) = Some (Suc (timerCount t)) \<and>
       Suc (timerCount t) \<notin> set (timers t)" if "isInStep t"
    using that inv setSpeed'_timers [of t ms] fresh by (simp add: setSpeed_def)
  have other: "timers t' = timers t" if "\<forall>ms. c \<noteq> CallSetSpeed ms" "invoke c t = Some t'"
    using that invoke_sameTimers [of c t t'] by (simp add: sameTimers_def)
  have once: "steps t'' = steps t \<or> steps t'' = tl (steps t)" if "tick i t = Some t''"
    using that by (auto simp: tick_def split: if_splits dest: nextStep_steps)
  have idle: "\<exists>u. tick i t = Some u \<and> timers u = [] \<and> interval u = None"
    if "i \<in> set (timers t)" "steps t = []"
    using that inv
    by (auto simp: tick_def nextStep_def oneTimer_def clearInterval_def split: option.splits)
  show ?thesis
    using one arm other once idle by blast
qed

theorem timer_discipline_witness:
  "reachable (setSpeed (Fin 0) turtle0) \<and>
   length (timers (setSpeed (Fin 0) turtle0)) \<le> 1 \<and>
   isInStep (setSpeed (Fin 0) turtle0) \<and>
   timers (setSpeed (Fin 50) (setSpeed (Fin 0) turtle0)) = [2] \<and>
   invoke CallHide (setSpeed (Fin 0) turtle0) = Some (hide (setSpeed (Fin 0) turtle0)) \<and>
   timers (hide (setSpeed (Fin 0) turtle0)) = timers (setSpeed (Fin 0) turtle0) \<and>
   1 \<in> set (timers (setSpeed (Fin 0) turtle0)) \<and>
   steps (setSpeed (Fin 0) turtle0) = [] \<and>
   (\<exists>u. tick 1 (setSpeed (Fin 0) turtle0) = Some u \<and> timers u = [] \<and> interval u = None)"
proof -
  have r: "reachable (setSpeed (Fin 0) turtle0)"
    using reachable_invoke [OF reachable_new, of "CallSetSpeed (Fin 0)" "[]" canvas200 noOptions]
    by (simp add: turtle0_def)
  have f: "isInStep (setSpeed (Fin 0) turtle0)" "timerCount (setSpeed (Fin 0) turtle0) = 1"
    "1 \<in> set (timers (setSpeed (Fin 0) turtle0))" "steps (setSpeed (Fin 0) turtle0) = []"
    by (simp_all add: turtle0_eq method_defs)
  show ?thesis
    using r f
      timer_discipline [OF r, of "Fin 50" CallHide "hide (setSpeed (Fin 0) turtle0)" 1]
    by simp
qed

text \<open>
  C6 as stated says that no timer is created by \<^verbatim>\<open>setSpeed(ms)\<close> with \<open>ms \<le> 0\<close> and that
  such a call tears the timer down. On the fresh turtle \<^verbatim>\<open>setSpeed(0)\<close> arms the interval
  1 although step-by-step mode stays off; and after \<^verbatim>\<open>setSpeed(50)\<close>, the queued
  \<^verbatim>\<open>setSpeed(0)\<close>, once replayed by a tick, stops the interval 1 and arms the interval 2.
\<close>

theorem setSpeed_zero_arms_timer:
  "stepByStep (setSpeed (Fin 0) turtle0) = False \<and>
   timers (setSpeed (Fin 0) turtle0) = [1] \<and>
   interval (setSpeed (Fin 0) turtle0) = Some 1 \<and>
   map_option timers (tick 1 (setSpeed (Fin 0) (setSpeed (Fin 50) turtle0))) = Some [2] \<and>
   map_option interval (tick 1 (setSpeed (Fin 0) (setSpeed (Fin 50) turtle0))) = Some (Some 2) \<and>
   map_option stepByStep (tick 1 (setSpeed (Fin 0) (setSpeed (Fin 50) turtle0))) = Some False"
  by (simp add: turtle0_eq method_defs tick_def nextStep_def)

end
